theory Spec2Isabelle
  imports Main
begin

section \<open>Strings and characters\<close>

text \<open>
  A JavaScript string is the list of its code units. Every pattern and every
  replacement of the program names ASCII characters only and treats all other
  units alike, so a unit is modelled as a \<^typ>\<open>char\<close> (the units below 256) and
  a line as a \<^typ>\<open>string\<close>.
\<close>

definition code :: "char \<Rightarrow> nat" where
  "code c = of_char c"

definition bslash :: char where "bslash = CHR 0x5C"
definition squote :: char where "squote = CHR 0x27"
definition dquote :: char where "dquote = CHR 0x22"
definition newline :: char where "newline = CHR 0x0A"
definition creturn :: char where "creturn = CHR 0x0D"
definition nul :: char where "nul = CHR 0x00"
definition sub :: char where "sub = CHR 0x1A"
definition comma :: char where "comma = CHR '',''"
definition esc :: char where "esc = CHR 0x1B"

text \<open>\<open>Array.prototype.join\<close> on an array of strings.\<close>

fun join :: "string \<Rightarrow> string list \<Rightarrow> string" where
  "join sep [] = []"
| "join sep [x] = x"
| "join sep (x # y # ys) = x @ sep @ join sep (y # ys)"

text \<open>
  \<open>str.replace(/c/g, rep)\<close> for a pattern of one literal character and a
  replacement without \<open>$\<close>: every occurrence of the character is replaced, from
  left to right, and the replacement is not scanned again.
\<close>

primrec replace_all :: "char \<Rightarrow> string \<Rightarrow> string \<Rightarrow> string" where
  "replace_all c rep [] = []"
| "replace_all c rep (x # xs) = (if x = c then rep else [x]) @ replace_all c rep xs"

text \<open>Decimal digits of a natural number, as a template literal prints a count.\<close>

definition digit_char :: "nat \<Rightarrow> char" where
  "digit_char d = ''0123456789'' ! d"

fun show_nat :: "nat \<Rightarrow> string" where
  "show_nat n =
     (if n < 10 then [digit_char n]
      else show_nat (n div 10) @ [digit_char (n mod 10)])"

definition show_int :: "int \<Rightarrow> string" where
  "show_int i = (if i < 0 then CHR ''-'' # show_nat (nat (- i)) else show_nat (nat i))"

text \<open>\<open>s.startsWith(needle)\<close>, and the number of places of a text where a needle
  starts.\<close>

fun starts_with :: "string \<Rightarrow> string \<Rightarrow> bool" where
  "starts_with [] s = True"
| "starts_with (a # as) [] = False"
| "starts_with (a # as) (c # cs) = (a = c \<and> starts_with as cs)"

fun occurrences :: "string \<Rightarrow> string \<Rightarrow> nat" where
  "occurrences needle [] = (if needle = [] then 1 else 0)"
| "occurrences needle (c # cs) =
     (if starts_with needle (c # cs) then 1 else 0) + occurrences needle cs"

section \<open>Regular expressions\<close>

text \<open>
  The fragment of the pattern language that the two patterns of
  \<open>detectInput\<close> use: character classes of ranges and single characters,
  sequence, alternation, \<open>*\<close>, \<open>+\<close> and \<open>{n}\<close>. Both patterns are anchored
  with \<open>^\<close> and \<open>$\<close> and have no \<open>m\<close> flag, so \<open>line.match(re)\<close> is truthy exactly
  when the whole line is in the language of the body.
\<close>

datatype class_item = CRange char char | CChar char

datatype rx =
    Zero
  | Eps
  | Cls "class_item list"
  | Seq rx rx
  | Alt rx rx
  | Star rx

definition Plus :: "rx \<Rightarrow> rx" where
  "Plus r = Seq r (Star r)"

primrec Times :: "nat \<Rightarrow> rx \<Rightarrow> rx" where
  "Times 0 r = Eps"
| "Times (Suc n) r = Seq r (Times n r)"

text \<open>
  With the \<open>i\<close> flag two code units match when their canonical forms agree; the
  canonical form of \<open>a\<close>..\<open>z\<close> is the upper-case letter, and no unit outside
  ASCII has an ASCII canonical form. For class members in ASCII this is: the
  unit itself, its upper-case or its lower-case form is a member.
\<close>

definition upper_code :: "nat \<Rightarrow> nat" where
  "upper_code n = (if 97 \<le> n \<and> n \<le> 122 then n - 32 else n)"

definition lower_code :: "nat \<Rightarrow> nat" where
  "lower_code n = (if 65 \<le> n \<and> n \<le> 90 then n + 32 else n)"

fun item_has :: "class_item \<Rightarrow> nat \<Rightarrow> bool" where
  "item_has (CRange lo hi) n = (code lo \<le> n \<and> n \<le> code hi)"
| "item_has (CChar a) n = (n = code a)"

definition item_match :: "bool \<Rightarrow> class_item \<Rightarrow> char \<Rightarrow> bool" where
  "item_match icase it c =
     (item_has it (code c) \<or>
      (icase \<and> (item_has it (upper_code (code c)) \<or> item_has it (lower_code (code c)))))"

definition cls_match :: "bool \<Rightarrow> class_item list \<Rightarrow> char \<Rightarrow> bool" where
  "cls_match icase its c = list_ex (\<lambda>it. item_match icase it c) its"

primrec nullable :: "rx \<Rightarrow> bool" where
  "nullable Zero = False"
| "nullable Eps = True"
| "nullable (Cls its) = False"
| "nullable (Seq r s) = (nullable r \<and> nullable s)"
| "nullable (Alt r s) = (nullable r \<or> nullable s)"
| "nullable (Star r) = True"

primrec deriv :: "bool \<Rightarrow> char \<Rightarrow> rx \<Rightarrow> rx" where
  "deriv icase c Zero = Zero"
| "deriv icase c Eps = Zero"
| "deriv icase c (Cls its) = (if cls_match icase its c then Eps else Zero)"
| "deriv icase c (Seq r s) =
     (if nullable r then Alt (Seq (deriv icase c r) s) (deriv icase c s)
      else Seq (deriv icase c r) s)"
| "deriv icase c (Alt r s) = Alt (deriv icase c r) (deriv icase c s)"
| "deriv icase c (Star r) = Seq (deriv icase c r) (Star r)"

text \<open>\<open>matches icase r line\<close>: the anchored pattern \<open>/^r$/\<close> (with flag \<open>i\<close> when
  \<open>icase\<close>) matches the line.\<close>

primrec matches :: "bool \<Rightarrow> rx \<Rightarrow> string \<Rightarrow> bool" where
  "matches icase r [] = nullable r"
| "matches icase r (c # cs) = matches icase (deriv icase c r) cs"

section \<open>The classifier of \<open>index.js\<close>\<close>

definition lit :: "char \<Rightarrow> rx" where
  "lit c = Cls [CChar c]"

definition hexdigit :: rx where
  "hexdigit = Cls [CRange (CHR ''0'') (CHR ''9''), CRange (CHR ''a'') (CHR ''f'')]"

text \<open>The class \<open>[a-z0-9-._]\<close>: after the range \<open>0-9\<close> the hyphen is a literal.\<close>

definition guidchar :: rx where
  "guidchar = Cls [CRange (CHR ''a'') (CHR ''z''), CRange (CHR ''0'') (CHR ''9''),
                   CChar (CHR ''-''), CChar (CHR ''.''), CChar (CHR ''_'')]"

definition RE_GUID_uuid :: rx where
  "RE_GUID_uuid =
     Seq (lit (CHR ''{'')) (Seq (Times 8 hexdigit) (Seq (lit (CHR ''-''))
       (Seq (Times 4 hexdigit) (Seq (lit (CHR ''-''))
       (Seq (Times 4 hexdigit) (Seq (lit (CHR ''-''))
       (Seq (Times 4 hexdigit) (Seq (lit (CHR ''-''))
       (Seq (Times 12 hexdigit) (lit (CHR ''}'')))))))))))"

definition RE_GUID_email :: rx where
  "RE_GUID_email = Seq (Star guidchar) (Seq (lit (CHR ''@'')) (Plus guidchar))"

definition RE_GUID :: rx where
  "RE_GUID = Alt RE_GUID_uuid RE_GUID_email"

definition RE_IDS :: rx where
  "RE_IDS = Plus (Cls [CRange (CHR ''0'') (CHR ''9'')])"

text \<open>
  The body of the loop of \<open>detectInput\<close> decides the kind of one line: the
  first branch counts it as an id, the second as a guid, and a line that takes
  neither branch is counted as neither, which is what the final \<open>else\<close> of the
  function calls a slug.
\<close>

definition classify :: "string \<Rightarrow> string" where
  "classify line =
     (if matches False RE_IDS line then ''id''
      else if matches True RE_GUID line then ''guid''
      else ''slug'')"

text \<open>The loop: the two counters after all lines.\<close>

fun count_lines :: "string list \<Rightarrow> nat \<times> nat \<Rightarrow> nat \<times> nat" where
  "count_lines [] (countGuids, countIds) = (countGuids, countIds)"
| "count_lines (line # rest) (countGuids, countIds) =
     (if matches False RE_IDS line then count_lines rest (countGuids, countIds + 1)
      else if matches True RE_GUID line then count_lines rest (countGuids + 1, countIds)
      else count_lines rest (countGuids, countIds))"

definition detectInput :: "string list \<Rightarrow> string" where
  "detectInput data =
     (let (countGuids, countIds) = count_lines data (0, 0);
          total = length data
      in if countIds = total then ''id''
         else if countGuids = total then ''guid''
         else ''slug'')"


section \<open>Escaping (\<open>cli.js\<close>)\<close>

text \<open>Seven replacements, one after the other, the backslash first.\<close>

definition mysqlEscape :: "string \<Rightarrow> string" where
  "mysqlEscape str =
     replace_all sub [bslash, sub]
      (replace_all nul [bslash, nul]
       (replace_all creturn [bslash, creturn]
        (replace_all newline [bslash, newline]
         (replace_all dquote [bslash, dquote]
          (replace_all squote [bslash, squote]
           (replace_all bslash [bslash, bslash] str))))))"

text \<open>
  The value of a cell of a result row: a string or a number (the ids are
  integers, printed with their decimal digits), \<open>null\<close> for an SQL NULL,
  \<open>undefined\<close> for a column that the row does not have.
\<close>

datatype jsval = Undefined | Null | Num int | Str string

datatype error = TypeError | RemoteQueryError string

fun truthy :: "jsval \<Rightarrow> bool" where
  "truthy Undefined = False"
| "truthy Null = False"
| "truthy (Num n) = (n \<noteq> 0)"
| "truthy (Str s) = (s \<noteq> [])"

text \<open>The method call \<open>v.toString()\<close>: a \<open>TypeError\<close> on \<open>undefined\<close> and \<open>null\<close>.\<close>

fun toString :: "jsval \<Rightarrow> error + string" where
  "toString Undefined = Inl TypeError"
| "toString Null = Inl TypeError"
| "toString (Num n) = Inr (show_int n)"
| "toString (Str s) = Inr s"

definition csvEscape :: "jsval \<Rightarrow> error + string" where
  "csvEscape str =
     (case toString (if truthy str then str else Str []) of
        Inl e \<Rightarrow> Inl e
      | Inr s \<Rightarrow> Inr (replace_all comma [bslash, comma] s))"

text \<open>\<open>Array.prototype.join\<close> on an array of values: \<open>undefined\<close> and \<open>null\<close>
  give the empty string, every other element its string conversion.\<close>

fun join_element :: "jsval \<Rightarrow> string" where
  "join_element Undefined = []"
| "join_element Null = []"
| "join_element (Num n) = show_int n"
| "join_element (Str s) = s"

definition join_values :: "string \<Rightarrow> jsval list \<Rightarrow> string" where
  "join_values sep vs = join sep (map join_element vs)"

section \<open>Console and input\<close>

record console =
  out :: "string list"
  err :: "string list"

definition console_log :: "string \<Rightarrow> console \<Rightarrow> console" where
  "console_log text c = c\<lparr>out := out c @ [text]\<rparr>"

definition console_warn :: "string \<Rightarrow> console \<Rightarrow> console" where
  "console_warn text c = c\<lparr>err := err c @ [text]\<rparr>"

record env =
  isTTY :: bool
  stdin :: "string list"

definition getInputData :: "env \<Rightarrow> string list \<Rightarrow> string option \<Rightarrow> console \<Rightarrow> string list \<times> console" where
  "getInputData e data message c =
     (if data = [] then
        (stdin e,
         (case message of
            Some m \<Rightarrow> if isTTY e \<and> m \<noteq> [] then console_warn m c else c
          | None \<Rightarrow> c))
      else (data, c))"

section \<open>The partition command\<close>

record partition_argv =
  "identifier" :: "string list"
  "output" :: "string list option"
  debug :: bool

definition bold :: "string \<Rightarrow> string" where
  "bold text = [esc] @ ''[1m'' @ text @ [esc] @ ''[0m''"

definition header :: "partition_argv \<Rightarrow> string \<Rightarrow> string" where
  "header argv text =
     (if partition_argv.output argv \<noteq> None then [] else bold text @ [newline])"

definition shown :: "partition_argv \<Rightarrow> string \<Rightarrow> bool" where
  "shown argv kind =
     (case partition_argv.output argv of None \<Rightarrow> True | Some kinds \<Rightarrow> kind \<in> set kinds)"

text \<open>
  \<open>partitionIds\<close> is imported from the library \<open>amolib\<close>; it is a parameter
  here and returns the three buckets \<open>ids\<close>, \<open>guids\<close> and \<open>other\<close>.
\<close>

definition partition_sections :: "partition_argv \<Rightarrow> string list \<times> string list \<times> string list \<Rightarrow> string list" where
  "partition_sections argv buckets =
     (let (ids, guids, other) = buckets;
          sections = [];
          sections = (if ids \<noteq> [] \<and> shown argv ''id''
                      then sections @ [header argv ''IDs:'' @ join [newline] ids] else sections);
          sections = (if guids \<noteq> [] \<and> shown argv ''guid''
                      then sections @ [header argv ''GUIDs:'' @ join [newline] guids] else sections);
          sections = (if other \<noteq> [] \<and> shown argv ''slug''
                      then sections @ [header argv ''Slugs:'' @ join [newline] other] else sections)
      in sections)"

definition partition :: "(string list \<Rightarrow> string list \<times> string list \<times> string list) \<Rightarrow> env \<Rightarrow> partition_argv \<Rightarrow> console" where
  "partition partitionIds e argv =
     (let (data, c) = getInputData e (partition_argv.identifier argv) None
                        \<lparr>out = [], err = []\<rparr>;
          (ids, guids, other) = partitionIds data;
          c = (if debug argv
               then console_warn (''Found '' @ show_nat (length ids) @ '' ids, '' @
                      show_nat (length guids) @ '' guids, and '' @
                      show_nat (length other) @ '' potential slugs'') c
               else c)
      in console_log
           (join (if partition_argv.output argv \<noteq> None then [newline] else [newline, newline])
              (partition_sections argv (ids, guids, other))) c)"

section \<open>The convert command\<close>

datatype output_arg = One string | Many "string list"

record convert_argv =
  "identifier" :: "string list"
  "input" :: string
  "output" :: output_arg
  user :: bool
  wx :: bool

definition FORMAT_CHOICES :: "string list" where
  "FORMAT_CHOICES = [''id'', ''guid'', ''slug'', ''user_id'']"

type_synonym row = "string \<rightharpoonup> jsval"

text \<open>\<open>columns\<close>: \<open>Array.isArray(argv.output) ? argv.output : [argv.output]\<close>.\<close>

definition output_columns :: "convert_argv \<Rightarrow> string list" where
  "output_columns argv = (case convert_argv.output argv of Many cs \<Rightarrow> cs | One col \<Rightarrow> [col])"


definition cell :: "row \<Rightarrow> string \<Rightarrow> jsval" where
  "cell r column = (case r column of None \<Rightarrow> Undefined | Some v \<Rightarrow> v)"

definition columnmap :: "string \<rightharpoonup> string" where
  "columnmap = map_of [(''id'', ''a.id''), (''guid'', ''a.guid''), (''slug'', ''a.slug''),
                       (''user_id'', ''au.user_id'')]"

definition column_expr :: "string \<Rightarrow> string" where
  "column_expr col = (case columnmap col of Some e \<Rightarrow> e | None \<Rightarrow> ''a.'' @ col)"

definition ind :: "nat \<Rightarrow> string" where
  "ind n = replicate n (CHR '' '')"

definition line :: "nat \<Rightarrow> string \<Rightarrow> string" where
  "line n text = ind n @ text @ [newline]"

definition guid_reuse :: string where
  "guid_reuse = ''NOT LIKE '' @ [squote] @ ''guid-reused-by-pk-%'' @ [squote]"

definition wx_joins :: "bool \<Rightarrow> string" where
  "wx_joins w =
     (if w then [newline] @
        line 10 ''LEFT JOIN versions v ON (v.addon_id = a.id)'' @
        line 10 ''LEFT JOIN files f ON (f.version_id = v.id)'' @
        ind 10
      else [])"

definition wx_filter :: "bool \<Rightarrow> string" where
  "wx_filter w = (if w then ''AND f.is_webextension = 1'' else [])"

text \<open>The three query texts of \<open>convert\<close>, with the template's line breaks and
  indentation.\<close>

definition user_query :: "string \<Rightarrow> string list \<Rightarrow> bool \<Rightarrow> string list \<Rightarrow> string" where
  "user_query inp columns w escapedIds =
     [newline] @
     line 8 (''SELECT '' @ join '','' (map column_expr columns) @ '',au.user_id'') @
     line 8 ''FROM addons_users au'' @
     line 8 ''LEFT JOIN addons a ON (a.id = au.addon_id)'' @
     line 8 (wx_joins w) @
     line 8 ''WHERE'' @
     line 10 ''au.user_id IN ('' @
     line 12 ''SELECT au.user_id'' @
     line 12 ''FROM addons a'' @
     line 12 ''RIGHT JOIN addons_users au ON (a.id = au.addon_id)'' @
     line 12 (''WHERE a.'' @ inp @ '' IN ('' @ join '','' escapedIds @ '')'') @
     line 12 ''GROUP BY au.user_id'' @
     line 10 '')'' @
     line 10 (''AND a.guid '' @ guid_reuse) @
     line 10 (wx_filter w) @
     line 10 ''GROUP BY a.id'' @
     ind 6"

definition owner_query :: "string \<Rightarrow> string list \<Rightarrow> string" where
  "owner_query inp escapedIds =
     [newline] @
     line 8 ''SELECT au.user_id'' @
     line 8 ''FROM addons_users au'' @
     line 8 ''LEFT JOIN addons a ON (a.id = au.addon_id)'' @
     line 8 (''WHERE a.'' @ inp @ '' IN ('' @ join '','' escapedIds @ '')'') @
     ind 6"

definition lookup_query :: "string \<Rightarrow> string list \<Rightarrow> bool \<Rightarrow> string list \<Rightarrow> string" where
  "lookup_query inp columns w escapedIds =
     [newline] @
     line 8 (''SELECT '' @ join '','' (map column_expr columns)) @
     line 8 ''FROM addons a'' @
     line 8 (wx_joins w) @
     line 8 ''LEFT JOIN addons_users au ON (au.addon_id = a.id AND au.position = 0)'' @
     line 8 ''WHERE'' @
     line 10 (''a.'' @ inp @ '' IN ('' @ join '','' escapedIds @ '')'') @
     line 10 (''AND a.guid '' @ guid_reuse) @
     line 10 (wx_filter w) @
     line 8 ''GROUP BY a.id'' @
     ind 6"

text \<open>The branch on \<open>argv.user\<close> and on the columns that chooses the query.\<close>

definition convert_query :: "bool \<Rightarrow> string \<Rightarrow> string list \<Rightarrow> bool \<Rightarrow> string list \<Rightarrow> string" where
  "convert_query u inp columns w escapedIds =
     (if u then user_query inp columns w escapedIds
      else if length columns = 1 \<and> columns ! 0 = ''user_id'' then owner_query inp escapedIds
      else lookup_query inp columns w escapedIds)"

text \<open>\<open>data.filter(Boolean)\<close> on an array of strings, and \<open>escapedIds\<close>.\<close>

definition nonempty :: "string list \<Rightarrow> string list" where
  "nonempty data = filter (\<lambda>l. l \<noteq> []) data"

definition escapedIds :: "string list \<Rightarrow> string list" where
  "escapedIds data = map (\<lambda>l. [dquote] @ mysqlEscape l @ [dquote]) data"

text \<open>The columns after the query: \<open>columns.push("user_id")\<close> in the first branch.\<close>

definition display_columns :: "bool \<Rightarrow> string list \<Rightarrow> string list" where
  "display_columns u columns =
     (if u \<and> 1 < length columns then columns @ [''user_id''] else columns)"

text \<open>\<open>escape\<close> is chosen from the columns as requested, before any push.\<close>

definition escape :: "string list \<Rightarrow> jsval \<Rightarrow> error + jsval" where
  "escape columns v =
     (if 1 < length columns
      then (case csvEscape v of Inl e \<Rightarrow> Inl e | Inr s \<Rightarrow> Inr (Str s))
      else Inr v)"

fun traverse :: "('a \<Rightarrow> error + 'b) \<Rightarrow> 'a list \<Rightarrow> error + 'b list" where
  "traverse f [] = Inr []"
| "traverse f (x # xs) =
     (case f x of
        Inl e \<Rightarrow> Inl e
      | Inr y \<Rightarrow> (case traverse f xs of Inl e \<Rightarrow> Inl e | Inr ys \<Rightarrow> Inr (y # ys)))"

definition format_row :: "string list \<Rightarrow> string list \<Rightarrow> row \<Rightarrow> error + string" where
  "format_row requested columns r =
     (case traverse (\<lambda>column. escape requested (cell r column)) columns of
        Inl e \<Rightarrow> Inl e
      | Inr cells \<Rightarrow> Inr (join_values '','' cells))"

text \<open>What \<open>convert\<close> prints once the rows are there.\<close>

definition print_result :: "string list \<Rightarrow> string list \<Rightarrow> string list \<Rightarrow> console \<Rightarrow> console" where
  "print_result columns resdata data c =
     (let c = (if 1 < length columns \<and> 0 < length resdata
               then console_log (join '','' columns) c else c);
          c = console_log (join [newline] resdata) c
      in if length resdata < length data
         then console_warn (''Warning: '' @ show_nat (length data - length resdata) @
                '' entries were not found'') c
         else c)"

text \<open>
  \<open>detectIdType\<close> is imported from \<open>amolib\<close> and \<open>redash\<close> is the query client;
  both are parameters. The result is the console and, when the client or a
  conversion fails, the error that rejects the promise.
\<close>

definition convert :: "(string list \<Rightarrow> string) \<Rightarrow> (string \<Rightarrow> error + row list) \<Rightarrow> env \<Rightarrow> convert_argv \<Rightarrow> console \<times> error option" where
  "convert detectIdType redash e argv =
     (let (data, c) = getInputData e (convert_argv.identifier argv)
                        (Some (''Waiting for '' @ convert_argv.input argv @
                               ''s... (one per line, Ctrl+D to finish)''))
                        \<lparr>out = [], err = []\<rparr>;
          inp = (if convert_argv.input argv = ''auto'' then detectIdType data
                 else convert_argv.input argv);
          columns = output_columns argv;
          c = console_warn (''Converting '' @ inp @ ''s to '' @ join ''s,'' columns @ ''s'') c;
          data = nonempty data
      in case redash (convert_query (user argv) inp columns (wx argv) (escapedIds data)) of
           Inl failure \<Rightarrow> (c, Some failure)
         | Inr rows \<Rightarrow>
             (case traverse (format_row columns (display_columns (user argv) columns)) rows of
                Inl failure \<Rightarrow> (c, Some failure)
              | Inr resdata \<Rightarrow>
                  (print_result (display_columns (user argv) columns) resdata data c, None)))"

section \<open>The statements of the specification\<close>

definition is_digit :: "char \<Rightarrow> bool" where
  "is_digit c = (code (CHR ''0'') \<le> code c \<and> code c \<le> code (CHR ''9''))"

definition is_letter :: "char \<Rightarrow> bool" where
  "is_letter c = ((code (CHR ''a'') \<le> code c \<and> code c \<le> code (CHR ''z'')) \<or>
                  (code (CHR ''A'') \<le> code c \<and> code c \<le> code (CHR ''Z'')))"

definition is_hex :: "char \<Rightarrow> bool" where
  "is_hex c = (is_digit c \<or> (code (CHR ''a'') \<le> code c \<and> code c \<le> code (CHR ''f'')) \<or>
                  (code (CHR ''A'') \<le> code c \<and> code c \<le> code (CHR ''F'')))"

text \<open>The characters of an extension id as the specification lists them, and
  as the pattern has them.\<close>

definition claimed_guidchar :: "char \<Rightarrow> bool" where
  "claimed_guidchar c = (is_letter c \<or> is_digit c \<or> c = CHR ''-'' \<or> c = CHR ''.'')"

definition actual_guidchar :: "char \<Rightarrow> bool" where
  "actual_guidchar c = (claimed_guidchar c \<or> c = CHR ''_'')"

text \<open>A local part of allowed characters, an \<open>@\<close>, a domain of at least one
  allowed character.\<close>

fun email_like :: "(char \<Rightarrow> bool) \<Rightarrow> string \<Rightarrow> bool" where
  "email_like ok [] = False"
| "email_like ok (c # cs) =
     (if c = CHR ''@'' then cs \<noteq> [] \<and> list_all ok cs else ok c \<and> email_like ok cs)"

definition char_at :: "nat \<Rightarrow> char \<Rightarrow> string \<Rightarrow> bool" where
  "char_at i c s = (i < length s \<and> s ! i = c)"

definition hex_at :: "nat \<Rightarrow> nat \<Rightarrow> string \<Rightarrow> bool" where
  "hex_at i n s = list_all is_hex (take n (drop i s))"

text \<open>A curly-braced UUID: hexadecimal groups of 8, 4, 4, 4 and 12.\<close>

definition braced_uuid :: "string \<Rightarrow> bool" where
  "braced_uuid s =
     (length s = 38 \<and> char_at 0 (CHR ''{'') s \<and> hex_at 1 8 s \<and> char_at 9 (CHR ''-'') s \<and>
      hex_at 10 4 s \<and> char_at 14 (CHR ''-'') s \<and> hex_at 15 4 s \<and> char_at 19 (CHR ''-'') s \<and>
      hex_at 20 4 s \<and> char_at 24 (CHR ''-'') s \<and> hex_at 25 12 s \<and> char_at 37 (CHR ''}'') s)"

definition all_digits :: "string \<Rightarrow> bool" where
  "all_digits s = (s \<noteq> [] \<and> list_all is_digit s)"

text \<open>The classifier as the specification words it, for a given set of
  extension-id characters.\<close>

definition spec_classify :: "(char \<Rightarrow> bool) \<Rightarrow> string \<Rightarrow> string" where
  "spec_classify ok s =
     (if all_digits s then ''id''
      else if braced_uuid s \<or> email_like ok s then ''guid''
      else ''slug'')"

text \<open>The bulk type as the specification words it: \<open>id\<close> when every non-empty
  line is an id, \<open>guid\<close> when every line is a guid, \<open>slug\<close> otherwise.\<close>

definition spec_bulk_type :: "string list \<Rightarrow> string" where
  "spec_bulk_type data =
     (if list_all (\<lambda>l. classify l = ''id'') (filter (\<lambda>l. l \<noteq> []) data) then ''id''
      else if list_all (\<lambda>l. classify l = ''guid'') data then ''guid''
      else ''slug'')"

text \<open>
  Reading a quoted literal: from the text after the opening delimiter \<open>q\<close>,
  the text after the closing delimiter, when there is one. A backslash takes
  the next character with it.
\<close>

fun literal_rest :: "char \<Rightarrow> string \<Rightarrow> string option" where
  "literal_rest q [] = None"
| "literal_rest q [c] = (if c = q then Some [] else None)"
| "literal_rest q (c # d # cs) =
     (if c = q then Some (d # cs)
      else if c = bslash then literal_rest q cs
      else literal_rest q (d # cs))"

text \<open>The number of backslashes at the end of a text.\<close>

definition backslashes_at_end :: "string \<Rightarrow> nat" where
  "backslashes_at_end s = length (takeWhile (\<lambda>c. c = bslash) (rev s))"

text \<open>String conversion of a value, the empty string when it is absent.\<close>

fun stringified :: "jsval \<Rightarrow> string" where
  "stringified Undefined = []"
| "stringified Null = []"
| "stringified (Num n) = show_int n"
| "stringified (Str s) = s"

text \<open>The flat list of the partition command as the specification words it:
  the sections separated by one blank line.\<close>

definition spec_flat_list :: "partition_argv \<Rightarrow> string list \<times> string list \<times> string list \<Rightarrow> string" where
  "spec_flat_list argv buckets = join [newline, newline] (partition_sections argv buckets)"

text \<open>What the seven replacements do to one character.\<close>

definition special :: "char \<Rightarrow> bool" where
  "special c = (c = bslash \<or> c = squote \<or> c = dquote \<or> c = newline \<or> c = creturn \<or>
                c = nul \<or> c = sub)"

definition escape_char :: "char \<Rightarrow> string" where
  "escape_char c = (if special c then [bslash, c] else [c])"

text \<open>The text of one cell and of one row of the output, for the columns as
  requested and the columns as displayed.\<close>

definition cell_text :: "string list \<Rightarrow> jsval \<Rightarrow> string" where
  "cell_text requested v =
     (if 1 < length requested
      then replace_all comma [bslash, comma] (if truthy v then stringified v else [])
      else join_element v)"

definition row_text :: "string list \<Rightarrow> string list \<Rightarrow> row \<Rightarrow> string" where
  "row_text requested columns r =
     join '','' (map (\<lambda>column. cell_text requested (cell r column)) columns)"

definition contains :: "string \<Rightarrow> string \<Rightarrow> bool" where
  "contains needle s = (0 < occurrences needle s)"

text \<open>The extension-id pattern read as a split of the line at its \<open>@\<close>.\<close>

definition email_split :: "string \<Rightarrow> bool" where
  "email_split s = (\<exists>u v. s = u @ v \<and> list_all actual_guidchar u \<and>
         (case v of [] \<Rightarrow> False | c # w \<Rightarrow> c = CHR ''@'' \<and> w \<noteq> [] \<and> list_all actual_guidchar w))"

section \<open>The matcher\<close>

lemma matches_Zero: "matches ic Zero s = False"
  by (induction s) simp_all

lemma matches_Eps: "matches ic Eps s = (s = [])"
  by (cases s) (simp_all add: matches_Zero)

lemma matches_Alt: "matches ic (Alt r1 r2) s = (matches ic r1 s \<or> matches ic r2 s)"
  by (induction s arbitrary: r1 r2) simp_all

lemma matches_Cls: "matches ic (Cls its) s = (\<exists>c. s = [c] \<and> cls_match ic its c)"
  by (cases s) (auto simp: matches_Eps matches_Zero)

lemma matches_Seq:
  "matches ic (Seq r1 r2) s = (\<exists>u v. s = u @ v \<and> matches ic r1 u \<and> matches ic r2 v)"
proof (induction s arbitrary: r1 r2)
  case Nil
  show ?case by simp
next
  case (Cons c cs)
  have split: "(\<exists>u v. c # cs = u @ v \<and> matches ic r1 u \<and> matches ic r2 v) =
        ((nullable r1 \<and> matches ic (deriv ic c r2) cs) \<or>
         (\<exists>u v. cs = u @ v \<and> matches ic (deriv ic c r1) u \<and> matches ic r2 v))"
    (is "?L = ?R")
  proof
    assume ?L
    then obtain u v where uv: "c # cs = u @ v" "matches ic r1 u" "matches ic r2 v" by blast
    show ?R
    proof (cases u)
      case Nil
      with uv show ?thesis by auto
    next
      case (Cons a u')
      with uv have "cs = u' @ v" "matches ic (deriv ic c r1) u'" by auto
      with uv show ?thesis by blast
    qed
  next
    assume ?R
    then show ?L
    proof
      assume "nullable r1 \<and> matches ic (deriv ic c r2) cs"
      then have "c # cs = [] @ (c # cs) \<and> matches ic r1 [] \<and> matches ic r2 (c # cs)" by simp
      then show ?L by blast
    next
      assume "\<exists>u v. cs = u @ v \<and> matches ic (deriv ic c r1) u \<and> matches ic r2 v"
      then obtain u v where "cs = u @ v" "matches ic (deriv ic c r1) u" "matches ic r2 v" by blast
      then have "c # cs = (c # u) @ v \<and> matches ic r1 (c # u) \<and> matches ic r2 v" by simp
      then show ?L by blast
    qed
  qed
  show ?case
    by (simp add: matches_Alt Cons.IH split del: ) (use split in blast)
qed

lemma matches_Star_Cls:
  "matches ic (Star (Cls its)) s = list_all (cls_match ic its) s"
proof (induction s)
  case Nil
  show ?case by simp
next
  case (Cons c cs)
  have "matches ic (Star (Cls its)) (c # cs) =
        matches ic (Seq (if cls_match ic its c then Eps else Zero) (Star (Cls its))) cs"
    by simp
  also have "\<dots> = (cls_match ic its c \<and> matches ic (Star (Cls its)) cs)"
    by (simp add: matches_Seq matches_Eps matches_Zero)
  finally show ?case using Cons.IH by simp
qed

lemma matches_Cls_Seq:
  "matches ic (Seq (Cls its) r) s =
     (case s of [] \<Rightarrow> False | c # cs \<Rightarrow> cls_match ic its c \<and> matches ic r cs)"
  by (cases s) (auto simp: matches_Seq matches_Eps matches_Zero)

lemma matches_Times_Seq:
  "matches ic (Seq (Times n (Cls its)) r) s =
     (n \<le> length s \<and> list_all (cls_match ic its) (take n s) \<and> matches ic r (drop n s))"
proof (induction n arbitrary: s)
  case 0
  show ?case by (simp add: matches_Seq matches_Eps)
next
  case (Suc n)
  have assoc: "matches ic (Seq (Seq (Cls its) (Times n (Cls its))) r) t =
               matches ic (Seq (Cls its) (Seq (Times n (Cls its)) r)) t" for t
    by (simp only: matches_Seq) (metis append.assoc)
  show ?case
    by (cases s) (auto simp add: assoc matches_Cls_Seq Suc.IH simp del: deriv.simps matches.simps)
qed

lemma code_inj: "code a = code b \<longleftrightarrow> a = b"
  by (simp add: code_def)

lemma cls_RE_IDS: "cls_match False [CRange (CHR ''0'') (CHR ''9'')] c = is_digit c"
  by (simp add: cls_match_def item_match_def is_digit_def)

lemma cls_hexdigit:
  "cls_match True [CRange (CHR ''0'') (CHR ''9''), CRange (CHR ''a'') (CHR ''f'')] c = is_hex c"
  unfolding cls_match_def item_match_def is_hex_def is_digit_def upper_code_def lower_code_def
  by (simp add: code_def) arith

lemma cls_guidchar:
  "cls_match True [CRange (CHR ''a'') (CHR ''z''), CRange (CHR ''0'') (CHR ''9''),
                   CChar (CHR ''-''), CChar (CHR ''.''), CChar (CHR ''_'')] c = actual_guidchar c"
proof -
  have c: "c = CHR ''-'' \<longleftrightarrow> code c = 45" "c = CHR ''.'' \<longleftrightarrow> code c = 46"
    "c = CHR ''_'' \<longleftrightarrow> code c = 95"
    using code_inj [of c "CHR ''-''"] code_inj [of c "CHR ''.''"] code_inj [of c "CHR ''_''"]
    by (simp_all add: code_def)
  show ?thesis
    unfolding cls_match_def item_match_def actual_guidchar_def claimed_guidchar_def is_letter_def
      is_digit_def upper_code_def lower_code_def c
    by (simp add: code_def) arith
qed

lemma cls_lit:
  assumes "code a < 65 \<or> (90 < code a \<and> code a < 97) \<or> 122 < code a"
  shows "cls_match ic [CChar a] c = (c = a)"
  using assms code_inj [of c a]
  unfolding cls_match_def item_match_def upper_code_def lower_code_def
  by (auto split: if_splits)

lemma cls_RE_IDS_fun: "cls_match False [CRange (CHR ''0'') (CHR ''9'')] = is_digit"
  by (rule ext) (rule cls_RE_IDS)

lemma cls_hexdigit_fun:
  "cls_match True [CRange (CHR ''0'') (CHR ''9''), CRange (CHR ''a'') (CHR ''f'')] = is_hex"
  by (rule ext) (rule cls_hexdigit)

lemma cls_guidchar_fun:
  "cls_match True [CRange (CHR ''a'') (CHR ''z''), CRange (CHR ''0'') (CHR ''9''),
                   CChar (CHR ''-''), CChar (CHR ''.''), CChar (CHR ''_'')] = actual_guidchar"
  by (rule ext) (rule cls_guidchar)

lemma matches_RE_IDS: "matches False RE_IDS s = (s \<noteq> [] \<and> list_all is_digit s)"
  by (cases s) (simp_all add: RE_IDS_def Plus_def matches_Cls_Seq matches_Star_Cls cls_RE_IDS_fun
      del: deriv.simps matches.simps)

lemma not_guidchar_at: "\<not> actual_guidchar (CHR ''@'')"
  by (simp add: actual_guidchar_def claimed_guidchar_def is_letter_def is_digit_def code_def)

lemma matches_email_tail:
  "matches True (Seq (lit (CHR ''@'')) (Plus guidchar)) v =
     (case v of [] \<Rightarrow> False | c # w \<Rightarrow> c = CHR ''@'' \<and> w \<noteq> [] \<and> list_all actual_guidchar w)"
proof -
  have plus: "matches True (Plus guidchar) w = (w \<noteq> [] \<and> list_all actual_guidchar w)" for w
    by (cases w) (simp_all add: guidchar_def Plus_def matches_Cls_Seq matches_Star_Cls
        cls_guidchar_fun del: deriv.simps matches.simps)
  show ?thesis
    by (cases v) (simp_all add: lit_def matches_Cls_Seq plus cls_lit code_def
        del: deriv.simps matches.simps)
qed

lemma email_split_Nil: "email_split [] = False"
  by (simp add: email_split_def)

lemma email_split_at: "email_split (CHR ''@'' # cs) = (cs \<noteq> [] \<and> list_all actual_guidchar cs)"
proof
  assume "email_split (CHR ''@'' # cs)"
  then obtain u v where uv: "CHR ''@'' # cs = u @ v" "list_all actual_guidchar u"
    "case v of [] \<Rightarrow> False | c # w \<Rightarrow> c = CHR ''@'' \<and> w \<noteq> [] \<and> list_all actual_guidchar w"
    unfolding email_split_def by blast
  show "cs \<noteq> [] \<and> list_all actual_guidchar cs"
  proof (cases u)
    case Nil
    with uv show ?thesis by auto
  next
    case (Cons a u')
    with uv have "actual_guidchar (CHR ''@'')" by simp
    with not_guidchar_at show ?thesis by simp
  qed
next
  assume "cs \<noteq> [] \<and> list_all actual_guidchar cs"
  then have "CHR ''@'' # cs = [] @ (CHR ''@'' # cs) \<and> list_all actual_guidchar [] \<and>
    (case CHR ''@'' # cs of [] \<Rightarrow> False | c # w \<Rightarrow> c = CHR ''@'' \<and> w \<noteq> [] \<and> list_all actual_guidchar w)"
    by simp
  then show "email_split (CHR ''@'' # cs)" unfolding email_split_def by blast
qed

lemma email_split_other:
  assumes "c \<noteq> CHR ''@''"
  shows "email_split (c # cs) = (actual_guidchar c \<and> email_split cs)"
proof
  assume "email_split (c # cs)"
  then obtain u v where uv: "c # cs = u @ v" "list_all actual_guidchar u"
    "case v of [] \<Rightarrow> False | c # w \<Rightarrow> c = CHR ''@'' \<and> w \<noteq> [] \<and> list_all actual_guidchar w"
    unfolding email_split_def by blast
  show "actual_guidchar c \<and> email_split cs"
  proof (cases u)
    case Nil
    with uv assms show ?thesis by auto
  next
    case (Cons a u')
    with uv have "actual_guidchar c" "cs = u' @ v" "list_all actual_guidchar u'" by simp_all
    with uv(3) show ?thesis unfolding email_split_def by blast
  qed
next
  assume a: "actual_guidchar c \<and> email_split cs"
  then obtain u v where uv: "cs = u @ v" "list_all actual_guidchar u"
    "case v of [] \<Rightarrow> False | c # w \<Rightarrow> c = CHR ''@'' \<and> w \<noteq> [] \<and> list_all actual_guidchar w"
    unfolding email_split_def by blast
  with a have "c # cs = (c # u) @ v \<and> list_all actual_guidchar (c # u)" by simp
  with uv(3) show "email_split (c # cs)" unfolding email_split_def by blast
qed

lemma email_split_eq: "email_split s = email_like actual_guidchar s"
  by (induction s) (simp_all add: email_split_Nil email_split_at email_split_other)

lemma matches_RE_GUID_email: "matches True RE_GUID_email s = email_like actual_guidchar s"
proof -
  have "matches True RE_GUID_email s = email_split s"
    unfolding RE_GUID_email_def matches_Seq [of True "Star guidchar"] matches_email_tail
      email_split_def
    by (simp add: guidchar_def matches_Star_Cls cls_guidchar_fun)
  then show ?thesis by (simp add: email_split_eq)
qed

lemma lit_at:
  assumes "code a < 65 \<or> (90 < code a \<and> code a < 97) \<or> 122 < code a"
  shows "matches ic (Seq (lit a) r) (drop i s) =
         (char_at i a s \<and> matches ic r (drop (Suc i) s))"
proof (cases "i < length s")
  case True
  then have "drop i s = s ! i # drop (Suc i) s" by (simp add: Cons_nth_drop_Suc)
  then show ?thesis using True assms
    by (simp add: lit_def matches_Cls_Seq cls_lit char_at_def del: deriv.simps matches.simps)
next
  case False
  then show ?thesis
    by (simp add: lit_def matches_Cls_Seq char_at_def del: deriv.simps matches.simps)
qed

lemma lit_end:
  assumes "code a < 65 \<or> (90 < code a \<and> code a < 97) \<or> 122 < code a"
  shows "matches ic (lit a) (drop i s) = (length s = Suc i \<and> char_at i a s)"
proof (cases "i < length s")
  case True
  then have d: "drop i s = s ! i # drop (Suc i) s" by (simp add: Cons_nth_drop_Suc)
  have "matches ic (lit a) (drop i s) = (drop (Suc i) s = [] \<and> s ! i = a)"
    unfolding lit_def matches_Cls d using assms by (auto simp: cls_lit)
  then show ?thesis using True by (auto simp: char_at_def)
next
  case False
  then show ?thesis
    by (simp add: lit_def matches_Cls char_at_def del: deriv.simps matches.simps)
qed

lemma hex_run_at:
  "matches True (Seq (Times n hexdigit) r) (drop i s) =
     (n \<le> length s - i \<and> hex_at i n s \<and> matches True r (drop (i + n) s))"
  unfolding hexdigit_def matches_Times_Seq cls_hexdigit_fun hex_at_def
  by (auto simp: add.commute)

lemma matches_RE_GUID_uuid: "matches True RE_GUID_uuid s = braced_uuid s"
proof -
  have open_at: "matches True (Seq (lit (CHR ''{'')) r) (drop i s) =
         (char_at i (CHR ''{'') s \<and> matches True r (drop (Suc i) s))" for r i
    by (rule lit_at) (simp add: code_def)
  have dash_at: "matches True (Seq (lit (CHR ''-'')) r) (drop i s) =
         (char_at i (CHR ''-'') s \<and> matches True r (drop (Suc i) s))" for r i
    by (rule lit_at) (simp add: code_def)
  have close_at: "matches True (lit (CHR ''}'')) (drop i s) =
         (length s = Suc i \<and> char_at i (CHR ''}'') s)" for i
    by (rule lit_end) (simp add: code_def)
  have "matches True RE_GUID_uuid s = matches True RE_GUID_uuid (drop 0 s)" by simp
  also have "\<dots> = braced_uuid s"
    unfolding RE_GUID_uuid_def braced_uuid_def
    by (simp only: open_at dash_at close_at hex_run_at) (auto simp: char_at_def)
  finally show ?thesis .
qed

section \<open>The classifier\<close>

lemma email_like_has_at: "email_like ok s \<Longrightarrow> CHR ''@'' \<in> set s"
  by (induction s) (auto split: if_splits)

lemma digit_not_special: "is_digit c \<Longrightarrow> c \<noteq> CHR ''@'' \<and> c \<noteq> CHR ''{''"
  by (auto simp: is_digit_def code_def)

lemma all_digits_not_email: "all_digits s \<Longrightarrow> \<not> email_like ok s"
proof
  assume d: "all_digits s" and e: "email_like ok s"
  from e have "CHR ''@'' \<in> set s" by (rule email_like_has_at)
  with d have "is_digit (CHR ''@'')" by (auto simp: all_digits_def list_all_iff)
  then show False using digit_not_special by blast
qed

lemma all_digits_not_uuid: "all_digits s \<Longrightarrow> \<not> braced_uuid s"
proof
  assume d: "all_digits s" and u: "braced_uuid s"
  from u have "0 < length s" "s ! 0 = CHR ''{''" by (simp_all add: braced_uuid_def char_at_def)
  then have "CHR ''{'' \<in> set s" by (metis nth_mem)
  with d have "is_digit (CHR ''{'')" by (auto simp: all_digits_def list_all_iff)
  then show False using digit_not_special by blast
qed

lemma matches_RE_GUID:
  "matches True RE_GUID s = (braced_uuid s \<or> email_like actual_guidchar s)"
  by (simp add: RE_GUID_def matches_Alt matches_RE_GUID_uuid matches_RE_GUID_email)

lemma classify_eq: "classify s = spec_classify actual_guidchar s"
  unfolding classify_def spec_classify_def matches_RE_IDS matches_RE_GUID all_digits_def
  by (rule refl)

text \<open>
  Claim C1, as amended. For every line the classifier returns \<open>id\<close> exactly when
  the line is a non-empty run of decimal digits; \<open>guid\<close> exactly when the line is
  a curly-braced UUID of hexadecimal groups 8-4-4-4-12 (in either case) or an
  extension id \<open>local@domain\<close> whose local part and non-empty domain consist of
  letters, digits, hyphen, dot and underscore; and \<open>slug\<close> for every other
  line, the empty line among them. The classifier is a total function: no line
  makes it fail.
\<close>

theorem classify_characterisation:
  "(classify s = ''id'' \<longleftrightarrow> all_digits s) \<and>
   (classify s = ''guid'' \<longleftrightarrow> braced_uuid s \<or> email_like actual_guidchar s) \<and>
   (classify s = ''slug'' \<longleftrightarrow>
      \<not> all_digits s \<and> \<not> braced_uuid s \<and> \<not> email_like actual_guidchar s) \<and>
   classify [] = ''slug''"
proof -
  have e: "\<not> all_digits []" "\<not> braced_uuid []" "\<not> email_like actual_guidchar []"
    by (simp_all add: all_digits_def braced_uuid_def)
  show ?thesis
    using all_digits_not_email [of s actual_guidchar] all_digits_not_uuid [of s] e
    by (auto simp: classify_eq spec_classify_def)
qed

theorem classify_characterisation_witness:
  "classify ''12345'' = ''id'' \<and> classify ''a_b@c.d'' = ''guid'' \<and> classify ''my-addon'' = ''slug''"
proof -
  have 1: "all_digits ''12345''"
    by (simp add: all_digits_def is_digit_def code_def)
  have 2: "email_like actual_guidchar ''a_b@c.d''"
    by (simp add: actual_guidchar_def claimed_guidchar_def is_digit_def is_letter_def code_def)
  have 3: "\<not> all_digits ''my-addon''" "\<not> braced_uuid ''my-addon''"
    "\<not> email_like actual_guidchar ''my-addon''"
    by (simp_all add: all_digits_def braced_uuid_def actual_guidchar_def claimed_guidchar_def
        is_digit_def is_letter_def code_def)
  show ?thesis
    using classify_characterisation [of "''12345''"] classify_characterisation [of "''a_b@c.d''"]
      classify_characterisation [of "''my-addon''"] 1 2 3
    by blast
qed

text \<open>
  Claim C1 as stated fails: the pattern also admits the underscore, so the
  line \<open>a_b@c\<close> is a guid for the code and a slug for the claim.
\<close>

theorem classify_underscore_counterexample:
  "classify ''a_b@c'' = ''guid'' \<and> spec_classify claimed_guidchar ''a_b@c'' = ''slug''"
proof -
  have "email_like actual_guidchar ''a_b@c''"
    by (simp add: actual_guidchar_def claimed_guidchar_def is_digit_def is_letter_def code_def)
  then have 1: "classify ''a_b@c'' = ''guid''"
    by (simp add: classify_eq spec_classify_def all_digits_def is_digit_def code_def)
  have 2: "spec_classify claimed_guidchar ''a_b@c'' = ''slug''"
    by (simp add: spec_classify_def all_digits_def braced_uuid_def claimed_guidchar_def
        is_digit_def is_letter_def code_def)
  from 1 2 show ?thesis by simp
qed

lemma count_lines_filter:
  "count_lines data (g, i) =
     (g + length (filter (\<lambda>l. classify l = ''guid'') data),
      i + length (filter (\<lambda>l. classify l = ''id'') data))"
  by (induction data arbitrary: g i) (simp_all add: classify_def)

lemma all_filter_length: "(length (filter P xs) = length xs) = list_all P xs"
proof (induction xs)
  case Nil
  show ?case by simp
next
  case (Cons x xs)
  have "length (filter P xs) < Suc (length xs)" by (simp add: less_Suc_eq_le)
  with Cons show ?case by auto
qed

lemma detectInput_eq:
  "detectInput data =
     (if list_all (\<lambda>l. classify l = ''id'') data then ''id''
      else if list_all (\<lambda>l. classify l = ''guid'') data then ''guid''
      else ''slug'')"
  by (simp add: detectInput_def count_lines_filter all_filter_length)

text \<open>
  Claim C2, as amended. For every list of lines the bulk type is \<open>id\<close> when
  every line, an empty one included, classifies as \<open>id\<close> (so also for the empty
  list), else \<open>guid\<close> when every line classifies as \<open>guid\<close>, and \<open>slug\<close>
  otherwise.
\<close>

theorem detectInput_every_line:
  "detectInput data =
     (if list_all (\<lambda>l. classify l = ''id'') data then ''id''
      else if list_all (\<lambda>l. classify l = ''guid'') data then ''guid''
      else ''slug'')"
  by (rule detectInput_eq)

theorem detectInput_every_line_witness:
  "detectInput [''1'', ''2'', ''3''] = ''id'' \<and>
   detectInput [''{aaaaaaaa-bbbb-cccc-dddd-eeeeeeeeeeee}''] = ''guid'' \<and>
   detectInput [''my-addon-slug''] = ''slug'' \<and>
   detectInput [''1'', ''my-addon-slug''] = ''slug'' \<and>
   detectInput [] = ''id''"
proof -
  have d: "all_digits ''1''" "all_digits ''2''" "all_digits ''3''"
    by (simp_all add: all_digits_def is_digit_def code_def)
  have u: "braced_uuid ''{aaaaaaaa-bbbb-cccc-dddd-eeeeeeeeeeee}''"
    by (simp add: braced_uuid_def char_at_def hex_at_def is_hex_def is_digit_def code_def)
  have s: "\<not> all_digits ''my-addon-slug''" "\<not> braced_uuid ''my-addon-slug''"
    "\<not> email_like actual_guidchar ''my-addon-slug''"
    by (simp_all add: all_digits_def braced_uuid_def actual_guidchar_def claimed_guidchar_def
        is_digit_def is_letter_def code_def)
  have c: "classify ''1'' = ''id''" "classify ''2'' = ''id''" "classify ''3'' = ''id''"
    "classify ''{aaaaaaaa-bbbb-cccc-dddd-eeeeeeeeeeee}'' = ''guid''"
    "classify ''my-addon-slug'' = ''slug''"
    using d u s all_digits_not_uuid [of "''{aaaaaaaa-bbbb-cccc-dddd-eeeeeeeeeeee}''"]
    by (auto simp: classify_eq spec_classify_def)
  show ?thesis
    by (simp add: detectInput_every_line [of "[''1'', ''2'', ''3'']"]
        detectInput_every_line [of "[''{aaaaaaaa-bbbb-cccc-dddd-eeeeeeeeeeee}'']"]
        detectInput_every_line [of "[''my-addon-slug'']"]
        detectInput_every_line [of "[''1'', ''my-addon-slug'']"]
        detectInput_every_line [of "[]"] c)
qed

text \<open>
  Claim C2 as stated fails: an empty line is counted in the total and is no id,
  so the lines \<open>1\<close> and the empty line give \<open>slug\<close>, where the claim says \<open>id\<close>.
\<close>

theorem detectInput_empty_line_counterexample:
  "detectInput [''1'', ''''] = ''slug'' \<and> spec_bulk_type [''1'', ''''] = ''id''"
proof -
  have c: "classify ''1'' = ''id''" "classify '''' = ''slug''"
    by (simp_all add: classify_eq spec_classify_def all_digits_def is_digit_def code_def
        braced_uuid_def)
  show ?thesis
    by (simp add: detectInput_every_line [of "[''1'', '''']"] spec_bulk_type_def c)
qed

section \<open>Escaping\<close>

lemma replace_all_append:
  "replace_all c rep (xs @ ys) = replace_all c rep xs @ replace_all c rep ys"
  by (induction xs) simp_all

lemmas char_defs = bslash_def squote_def dquote_def newline_def creturn_def nul_def sub_def
  comma_def

lemma mysqlEscape_Nil: "mysqlEscape [] = []"
  by (simp add: mysqlEscape_def)

lemma mysqlEscape_Cons: "mysqlEscape (c # cs) = escape_char c @ mysqlEscape cs"
  by (simp add: mysqlEscape_def escape_char_def special_def replace_all_append char_defs)

lemma mysqlEscape_append: "mysqlEscape (xs @ ys) = mysqlEscape xs @ mysqlEscape ys"
  by (induction xs) (simp_all add: mysqlEscape_Nil mysqlEscape_Cons)

lemma literal_rest_delim: "literal_rest q (q # rest) = Some rest"
  by (cases rest) simp_all

lemma literal_rest_escaped:
  "q \<noteq> bslash \<Longrightarrow> literal_rest q (bslash # c # rest) = literal_rest q rest"
  by simp

lemma literal_rest_plain:
  "c \<noteq> q \<Longrightarrow> c \<noteq> bslash \<Longrightarrow> rest \<noteq> [] \<Longrightarrow> literal_rest q (c # rest) = literal_rest q rest"
  by (cases rest) simp_all

lemma literal_rest_mysqlEscape:
  assumes "q = squote \<or> q = dquote"
  shows "literal_rest q (mysqlEscape s @ q # rest) = Some rest"
proof (induction s)
  case Nil
  show ?case by (simp add: mysqlEscape_Nil literal_rest_delim del: literal_rest.simps)
next
  case (Cons c cs)
  from assms have q: "q \<noteq> bslash" "special q" by (auto simp: special_def char_defs)
  show ?case
  proof (cases "special c")
    case True
    then show ?thesis using q Cons.IH
      by (simp add: mysqlEscape_Cons escape_char_def literal_rest_escaped del: literal_rest.simps)
  next
    case False
    with q have "c \<noteq> q" "c \<noteq> bslash" by (auto simp: special_def)
    then show ?thesis using False Cons.IH
      by (simp add: mysqlEscape_Cons escape_char_def literal_rest_plain del: literal_rest.simps)
  qed
qed

lemma backslashes_at_end_snoc:
  "backslashes_at_end (xs @ [c]) = (if c = bslash then Suc (backslashes_at_end xs) else 0)"
  by (simp add: backslashes_at_end_def)

lemma backslashes_mysqlEscape_even: "even (backslashes_at_end (mysqlEscape s))"
proof (induction s rule: rev_induct)
  case Nil
  show ?case by (simp add: mysqlEscape_Nil backslashes_at_end_def)
next
  case (snoc c cs)
  have "mysqlEscape (cs @ [c]) = mysqlEscape cs @ escape_char c"
    by (simp add: mysqlEscape_append mysqlEscape_Cons mysqlEscape_Nil)
  moreover have "backslashes_at_end (xs @ [a, b]) =
      (if b = bslash then if a = bslash then Suc (Suc (backslashes_at_end xs)) else 1 else 0)"
    for xs a b
    using backslashes_at_end_snoc [of "xs @ [a]" b] backslashes_at_end_snoc [of xs a] by simp
  ultimately show ?case using snoc.IH
    by (auto simp: escape_char_def special_def backslashes_at_end_snoc)
qed

lemma quotes_mysqlEscape_odd:
  "i < length (mysqlEscape s) \<Longrightarrow> mysqlEscape s ! i = squote \<or> mysqlEscape s ! i = dquote \<Longrightarrow>
   odd (backslashes_at_end (take i (mysqlEscape s)))"
proof (induction s arbitrary: i rule: rev_induct)
  case Nil
  then show ?case by (simp add: mysqlEscape_Nil)
next
  case (snoc c cs)
  let ?E = "mysqlEscape cs"
  have app: "mysqlEscape (cs @ [c]) = ?E @ escape_char c"
    by (simp add: mysqlEscape_append mysqlEscape_Cons mysqlEscape_Nil)
  have nb: "squote \<noteq> bslash" "dquote \<noteq> bslash" by (simp_all add: char_defs)
  show ?case
  proof (cases "i < length ?E")
    case True
    with snoc.prems have "?E ! i = squote \<or> ?E ! i = dquote" by (simp add: app nth_append)
    with True snoc.IH have "odd (backslashes_at_end (take i ?E))" by blast
    with True show ?thesis by (simp add: app)
  next
    case False
    show ?thesis
    proof (cases "special c")
      case sp: True
      with snoc.prems False have "i = length ?E \<or> i = Suc (length ?E)"
        by (auto simp: app escape_char_def)
      then show ?thesis
      proof
        assume "i = length ?E"
        with snoc.prems sp nb show ?thesis by (simp add: app escape_char_def nth_append)
      next
        assume i: "i = Suc (length ?E)"
        then have "take i (mysqlEscape (cs @ [c])) = ?E @ [bslash]"
          using sp by (simp add: app escape_char_def)
        then show ?thesis
          using backslashes_mysqlEscape_even [of cs] by (simp add: backslashes_at_end_snoc)
      qed
    next
      case ns: False
      with snoc.prems False have i: "i = length ?E" by (simp add: app escape_char_def)
      with snoc.prems ns have "c = squote \<or> c = dquote"
        by (simp add: app escape_char_def nth_append)
      with ns show ?thesis by (auto simp: special_def)
    qed
  qed
qed

text \<open>
  Claim C3. For every string, the escaped text put between quote delimiters
  (single or double) is read as one literal that ends exactly at the closing
  delimiter, whatever follows it; and every quote character of the escaped
  text has an odd number of backslashes immediately before it. The backslash
  is the first of the seven replacements of \<open>mysqlEscape\<close>.
\<close>

theorem mysqlEscape_literal_safe:
  "(q = squote \<or> q = dquote \<longrightarrow> literal_rest q (mysqlEscape s @ q # rest) = Some rest) \<and>
   (\<forall>i < length (mysqlEscape s).
      mysqlEscape s ! i = squote \<or> mysqlEscape s ! i = dquote \<longrightarrow>
      odd (backslashes_at_end (take i (mysqlEscape s))))"
  using literal_rest_mysqlEscape [of q s rest] quotes_mysqlEscape_odd [of _ s] by blast

lemma mysqlEscape_sample:
  "mysqlEscape [CHR ''a'', squote, bslash, dquote, newline] =
     [CHR ''a'', bslash, squote, bslash, bslash, bslash, dquote, bslash, newline]"
  by (simp add: mysqlEscape_def char_defs)

theorem mysqlEscape_literal_safe_witness:
  "literal_rest dquote
     (mysqlEscape [CHR ''a'', squote, bslash, dquote, newline] @ dquote # '',x'') = Some '',x'' \<and>
   mysqlEscape [CHR ''a'', squote, bslash, dquote, newline] ! 2 = squote \<and>
   odd (backslashes_at_end (take 2 (mysqlEscape [CHR ''a'', squote, bslash, dquote, newline]))) \<and>
   mysqlEscape [CHR ''a'', squote, bslash, dquote, newline] ! 6 = dquote \<and>
   odd (backslashes_at_end (take 6 (mysqlEscape [CHR ''a'', squote, bslash, dquote, newline])))"
proof -
  let ?s = "[CHR ''a'', squote, bslash, dquote, newline]"
  note safe = mysqlEscape_literal_safe [of dquote ?s "'',x''"]
  from safe have 1: "literal_rest dquote (mysqlEscape ?s @ dquote # '',x'') = Some '',x''"
    by blast
  have 2: "mysqlEscape ?s ! 2 = squote" "2 < length (mysqlEscape ?s)"
    by (simp_all add: mysqlEscape_sample)
  have 3: "mysqlEscape ?s ! 6 = dquote" "6 < length (mysqlEscape ?s)"
    by (simp_all add: mysqlEscape_sample)
  from safe 2 have 4: "odd (backslashes_at_end (take 2 (mysqlEscape ?s)))" by blast
  from safe 3 have 5: "odd (backslashes_at_end (take 6 (mysqlEscape ?s)))" by blast
  from 1 2 3 4 5 show ?thesis by blast
qed

lemma csvEscape_eq:
  "csvEscape v = Inr (replace_all comma [bslash, comma] (if truthy v then stringified v else []))"
  by (cases v) (simp_all add: csvEscape_def)

lemma csvEscape_stringified:
  "v \<noteq> Num 0 \<Longrightarrow> csvEscape v = Inr (replace_all comma [bslash, comma] (stringified v))"
  by (cases v) (auto simp: csvEscape_eq)

lemma show_nat_0: "show_nat 0 = ''0''"
  by (simp add: digit_char_def)

text \<open>
  Claim C4 at the number zero: a cell with the value 0 is falsy, so
  \<open>csvEscape\<close> returns the empty string, where the string conversion of the
  value with its commas escaped is \<open>0\<close>. For every other value the claim holds
  (\<open>csvEscape_stringified\<close>).
\<close>

theorem csvEscape_zero:
  "csvEscape (Num 0) = Inr [] \<and>
   replace_all comma [bslash, comma] (stringified (Num 0)) = ''0''"
  by (simp add: csvEscape_def show_int_def digit_char_def comma_def)

section \<open>The partition command: flat list\<close>

lemma join_append:
  "xs \<noteq> [] \<Longrightarrow> ys \<noteq> [] \<Longrightarrow> join sep (xs @ ys) = join sep xs @ sep @ join sep ys"
proof (induction sep xs rule: join.induct)
  case (1 sep)
  then show ?case by simp
next
  case (2 sep x)
  then show ?case by (cases ys) simp_all
next
  case (3 sep x y ys')
  then show ?case by simp
qed

lemma header_flat: "partition_argv.output argv = Some kinds \<Longrightarrow> header argv text = []"
  by (simp add: header_def)

lemma shown_flat:
  "partition_argv.output argv = Some kinds \<Longrightarrow> shown argv kind = (kind \<in> set kinds)"
  by (simp add: shown_def)

lemma partition_sections_flat:
  assumes "partition_argv.output argv = Some kinds"
  shows "join [newline] (partition_sections argv (ids, guids, other)) =
         join [newline]
           ((if ''id'' \<in> set kinds then ids else []) @
            (if ''guid'' \<in> set kinds then guids else []) @
            (if ''slug'' \<in> set kinds then other else []))"
proof -
  have sec: "partition_sections argv (ids, guids, other) =
      (if ids \<noteq> [] \<and> ''id'' \<in> set kinds then [join [newline] ids] else []) @
      (if guids \<noteq> [] \<and> ''guid'' \<in> set kinds then [join [newline] guids] else []) @
      (if other \<noteq> [] \<and> ''slug'' \<in> set kinds then [join [newline] other] else [])"
    using assms by (simp add: partition_sections_def header_flat shown_flat Let_def)
  show ?thesis
    unfolding sec
    by (cases "ids = []"; cases "guids = []"; cases "other = []") (simp_all add: join_append)
qed

lemma partition_out:
  "out (partition partitionIds e argv) =
     [join (if partition_argv.output argv \<noteq> None then [newline] else [newline, newline])
        (partition_sections argv
           (partitionIds (if partition_argv.identifier argv = [] then stdin e
                          else partition_argv.identifier argv)))]"
  by (simp add: partition_def getInputData_def console_log_def console_warn_def Let_def
      split: prod.splits)

text \<open>
  Claim C5, as amended. When an output filter list is given, the partition
  command prints no section header; what it prints is the flat list of the
  items of the requested buckets, in the order ids, guids, slugs, one item per
  line: the included non-empty sections are separated by a single line break,
  with no blank line between them.
\<close>

theorem partition_flat_list:
  assumes "partition_argv.output argv = Some kinds"
    and "partitionIds (if partition_argv.identifier argv = [] then stdin e
                       else partition_argv.identifier argv) = (ids, guids, other)"
  shows "out (partition partitionIds e argv) =
     [join [newline]
        ((if ''id'' \<in> set kinds then ids else []) @
         (if ''guid'' \<in> set kinds then guids else []) @
         (if ''slug'' \<in> set kinds then other else []))]"
  using assms by (simp add: partition_out partition_sections_flat)

theorem partition_flat_list_witness:
  "out (partition (\<lambda>data. ([''1'', ''2''], [''@a''], [''x'']))
          \<lparr>isTTY = False, stdin = []\<rparr>
          \<lparr>partition_argv.identifier = [''1'', ''@a'', ''x'', ''2''],
           partition_argv.output = Some [''guid'', ''id''], debug = False\<rparr>) =
     [[CHR ''1'', newline, CHR ''2'', newline, CHR ''@'', CHR ''a'']]"
  using partition_flat_list [of
      "\<lparr>partition_argv.identifier = [''1'', ''@a'', ''x'', ''2''],
        partition_argv.output = Some [''guid'', ''id''], debug = False\<rparr>"
      "[''guid'', ''id'']" "\<lambda>data. ([''1'', ''2''], [''@a''], [''x''])"
      "\<lparr>isTTY = False, stdin = []\<rparr>" "[''1'', ''2'']" "[''@a'']" "[''x'']"]
  by simp

text \<open>
  Claim C5 as stated fails: with the filter \<open>id, guid\<close> and the buckets
  \<open>1\<close> and \<open>@a\<close> the output is the two lines \<open>1\<close> and \<open>@a\<close> with one line
  break between them, not the blank line that the claim puts there.
\<close>

theorem partition_blank_line_counterexample:
  "out (partition (\<lambda>data. ([''1''], [''@a''], []))
          \<lparr>isTTY = False, stdin = []\<rparr>
          \<lparr>partition_argv.identifier = [''1'', ''@a''],
           partition_argv.output = Some [''id'', ''guid''], debug = False\<rparr>) =
     [[CHR ''1'', newline, CHR ''@'', CHR ''a'']] \<and>
   spec_flat_list
          \<lparr>partition_argv.identifier = [''1'', ''@a''],
           partition_argv.output = Some [''id'', ''guid''], debug = False\<rparr>
          ([''1''], [''@a''], []) =
     [CHR ''1'', newline, newline, CHR ''@'', CHR ''a'']"
  by (simp add: partition_out spec_flat_list_def partition_sections_def header_def shown_def)

section \<open>The query texts\<close>

lemma starts_with_across:
  "c \<notin> set n \<Longrightarrow> starts_with n (P @ c # Q) = starts_with n P"
proof (induction n arbitrary: P)
  case Nil
  show ?case by simp
next
  case (Cons a as)
  then show ?case by (cases P) auto
qed

lemma occurrences_split:
  assumes "c \<notin> set n" "n \<noteq> []"
  shows "occurrences n (P @ c # Q) = occurrences n P + occurrences n Q"
proof (induction P)
  case Nil
  have "starts_with n (c # Q) = starts_with n []"
    using starts_with_across [OF assms(1), of "[]" Q] by simp
  with assms(2) show ?case by (cases n) simp_all
next
  case (Cons p P)
  have "starts_with n (p # P @ c # Q) = starts_with n (p # P)"
    using starts_with_across [OF assms(1), of "p # P" Q] by simp
  with Cons show ?case by simp
qed

lemma starts_with_mysqlEscape:
  "list_all (\<lambda>c. \<not> special c) p \<Longrightarrow> \<not> starts_with (p @ squote # r) (mysqlEscape s)"
proof (induction p arbitrary: s)
  case Nil
  have "special squote" "squote \<noteq> bslash" by (simp_all add: special_def char_defs)
  then show ?case
    by (cases s) (auto simp: mysqlEscape_Nil mysqlEscape_Cons escape_char_def)
next
  case (Cons a p)
  then have a: "\<not> special a" "a \<noteq> bslash" by (auto simp: special_def)
  show ?case
  proof (cases s)
    case Nil
    then show ?thesis by (simp add: mysqlEscape_Nil)
  next
    case (Cons c cs)
    with a Cons.IH Cons.prems show ?thesis
      by (auto simp: mysqlEscape_Cons escape_char_def)
  qed
qed

lemma occurrences_mysqlEscape:
  assumes "list_all (\<lambda>c. \<not> special c) (a # p)"
  shows "occurrences (a # p @ squote # r) (mysqlEscape s) = 0"
proof (induction s)
  case Nil
  show ?case by (simp add: mysqlEscape_Nil)
next
  case (Cons c cs)
  have no: "\<not> starts_with (a # p @ squote # r) (mysqlEscape (c # cs))"
    using starts_with_mysqlEscape [OF assms, of r "c # cs"] by simp
  show ?case
  proof (cases "special c")
    case True
    with assms have "a \<noteq> c" by auto
    with True no Cons.IH show ?thesis by (simp add: mysqlEscape_Cons escape_char_def)
  next
    case False
    with no Cons.IH show ?thesis by (simp add: mysqlEscape_Cons escape_char_def)
  qed
qed

lemma guid_reuse_shape:
  "guid_reuse = CHR ''N'' # ''OT LIKE '' @ squote # (''guid-reused-by-pk-%'' @ [squote])"
  by (simp add: guid_reuse_def)

lemma guid_reuse_escaped: "occurrences guid_reuse (mysqlEscape s) = 0"
  unfolding guid_reuse_shape
  by (rule occurrences_mysqlEscape) (simp add: special_def char_defs)

lemma guid_reuse_no_dquote: "dquote \<notin> set guid_reuse" "guid_reuse \<noteq> []"
  by (simp_all add: guid_reuse_def char_defs)

lemma guid_reuse_comma: "occurrences guid_reuse ('','' @ s) = occurrences guid_reuse s"
  by (simp add: guid_reuse_def)

lemma guid_reuse_ids:
  "data \<noteq> [] \<Longrightarrow>
   occurrences guid_reuse (P @ join '','' (escapedIds data) @ R) =
   occurrences guid_reuse P + occurrences guid_reuse R"
proof (induction data arbitrary: P)
  case Nil
  then show ?case by simp
next
  case (Cons l ls)
  note sp = occurrences_split [OF guid_reuse_no_dquote]
  show ?case
  proof (cases ls)
    case Nil
    have "P @ join '','' (escapedIds [l]) @ R = P @ dquote # (mysqlEscape l @ dquote # R)"
      by (simp add: escapedIds_def)
    then show ?thesis using Nil by (simp add: sp guid_reuse_escaped)
  next
    case (Cons l' ls')
    have "P @ join '','' (escapedIds (l # ls)) @ R =
          P @ dquote # (mysqlEscape l @ dquote # ('','' @ join '','' (escapedIds ls) @ R))"
      using Cons by (simp add: escapedIds_def)
    moreover have "occurrences guid_reuse ('','' @ join '','' (escapedIds ls) @ R) =
        occurrences guid_reuse R"
      using Cons.IH [of "'',''"] Cons by (simp add: guid_reuse_def)
    ultimately show ?thesis by (simp add: sp guid_reuse_escaped)
  qed
qed

lemma ind_eval:
  "ind 6 = [CHR '' '', CHR '' '', CHR '' '', CHR '' '', CHR '' '', CHR '' '']"
  "ind 8 = ind 6 @ [CHR '' '', CHR '' '']"
  "ind 10 = ind 8 @ [CHR '' '', CHR '' '']"
  "ind 12 = ind 10 @ [CHR '' '', CHR '' '']"
  by (simp_all add: ind_def eval_nat_numeral)

lemma owner_query_no_guid_reuse:
  assumes "inp \<in> set FORMAT_CHOICES"
  shows "occurrences guid_reuse (owner_query inp (escapedIds data)) = 0"
proof -
  let ?P = "[newline] @ line 8 ''SELECT au.user_id'' @ line 8 ''FROM addons_users au'' @
     line 8 ''LEFT JOIN addons a ON (a.id = au.addon_id)'' @ ind 8 @ ''WHERE a.'' @ inp @ '' IN (''"
  let ?R = "'')'' @ [newline] @ ind 6"
  have q: "owner_query inp (escapedIds data) = ?P @ join '','' (escapedIds data) @ ?R"
    by (simp add: owner_query_def line_def)
  have P: "occurrences guid_reuse ?P = 0"
    using assms by (auto simp: FORMAT_CHOICES_def guid_reuse_def line_def ind_eval char_defs)
  have R: "occurrences guid_reuse ?R = 0"
    by (simp add: guid_reuse_def line_def ind_eval char_defs)
  show ?thesis
  proof (cases "data = []")
    case True
    have "occurrences guid_reuse (?P @ ?R) = 0"
      using assms by (auto simp: FORMAT_CHOICES_def guid_reuse_def line_def ind_eval char_defs)
    with True show ?thesis unfolding q by (simp add: escapedIds_def)
  next
    case False
    show ?thesis unfolding q guid_reuse_ids [OF False] P R by simp
  qed
qed

lemma lookup_query_guid_reuse_once:
  "occurrences guid_reuse (lookup_query ''guid'' [''id''] False (escapedIds data)) = 1"
proof -
  let ?P = "[newline] @ line 8 ''SELECT a.id'' @ line 8 ''FROM addons a'' @ line 8 [] @
     line 8 ''LEFT JOIN addons_users au ON (au.addon_id = a.id AND au.position = 0)'' @
     line 8 ''WHERE'' @ ind 10 @ ''a.guid IN (''"
  let ?R = "'')'' @ [newline] @ line 10 (''AND a.guid '' @ guid_reuse) @ line 10 [] @
     line 8 ''GROUP BY a.id'' @ ind 6"
  have q: "lookup_query ''guid'' [''id''] False (escapedIds data) =
      ?P @ join '','' (escapedIds data) @ ?R"
    by (simp add: lookup_query_def line_def column_expr_def columnmap_def wx_joins_def
        wx_filter_def)
  have P: "occurrences guid_reuse ?P = 0"
    by (simp add: guid_reuse_def line_def ind_eval char_defs)
  have R: "occurrences guid_reuse ?R = 1"
    by (simp add: guid_reuse_def line_def ind_eval char_defs)
  show ?thesis
  proof (cases "data = []")
    case True
    have "occurrences guid_reuse (?P @ ?R) = 1"
      by (simp add: guid_reuse_def line_def ind_eval char_defs)
    with True show ?thesis unfolding q by (simp add: escapedIds_def)
  next
    case False
    show ?thesis unfolding q guid_reuse_ids [OF False] P R by simp
  qed
qed

lemma starts_with_self: "starts_with n (n @ R)"
  by (induction n) simp_all

lemma contains_here: "contains n (n @ R)"
proof (cases "n @ R")
  case Nil
  then show ?thesis by (simp add: contains_def)
next
  case (Cons c cs)
  have "starts_with n (c # cs)" using starts_with_self [of n R] Cons by simp
  then show ?thesis using Cons by (simp add: contains_def)
qed

lemma contains_mid: "contains n (P @ n @ R)"
proof (induction P)
  case Nil
  show ?case using contains_here [of n R] by simp
next
  case (Cons p P)
  then show ?case by (simp add: contains_def)
qed

text \<open>
  Claim C9. For the input type \<open>guid\<close>, the output columns \<open>["id"]\<close> and both
  flags false, the query is the lookup text whose condition is
  \<open>a.guid IN (...)\<close> over the identifiers, each escaped by \<open>mysqlEscape\<close> and
  put between double quotes, joined by commas; and the guid-reuse exclusion
  \<open>NOT LIKE 'guid-reused-by-pk-%'\<close> occurs in it exactly once, whatever the
  identifiers are, also when an identifier is that very text.
\<close>

theorem guid_lookup_smoke:
  "convert_query False ''guid'' [''id''] False (escapedIds data) =
     [newline] @
     line 8 ''SELECT a.id'' @
     line 8 ''FROM addons a'' @
     line 8 [] @
     line 8 ''LEFT JOIN addons_users au ON (au.addon_id = a.id AND au.position = 0)'' @
     line 8 ''WHERE'' @
     line 10 (''a.guid IN ('' @
              join '','' (map (\<lambda>l. [dquote] @ mysqlEscape l @ [dquote]) data) @ '')'') @
     line 10 (''AND a.guid NOT LIKE '' @ [squote] @ ''guid-reused-by-pk-%'' @ [squote]) @
     line 10 [] @
     line 8 ''GROUP BY a.id'' @
     ind 6 \<and>
   contains
     (''guid IN ('' @ join '','' (map (\<lambda>l. [dquote] @ mysqlEscape l @ [dquote]) data) @ '')'')
     (convert_query False ''guid'' [''id''] False (escapedIds data)) \<and>
   occurrences (''NOT LIKE '' @ [squote] @ ''guid-reused-by-pk-%'' @ [squote])
     (convert_query False ''guid'' [''id''] False (escapedIds data)) = 1"
proof -
  let ?ids = "map (\<lambda>l. [dquote] @ mysqlEscape l @ [dquote]) data"
  have q: "convert_query False ''guid'' [''id''] False (escapedIds data) =
      lookup_query ''guid'' [''id''] False (escapedIds data)"
    by (simp add: convert_query_def)
  have full: "lookup_query ''guid'' [''id''] False (escapedIds data) =
     [newline] @
     line 8 ''SELECT a.id'' @
     line 8 ''FROM addons a'' @
     line 8 [] @
     line 8 ''LEFT JOIN addons_users au ON (au.addon_id = a.id AND au.position = 0)'' @
     line 8 ''WHERE'' @
     line 10 (''a.guid IN ('' @ join '','' ?ids @ '')'') @
     line 10 (''AND a.guid NOT LIKE '' @ [squote] @ ''guid-reused-by-pk-%'' @ [squote]) @
     line 10 [] @
     line 8 ''GROUP BY a.id'' @
     ind 6"
    by (simp add: lookup_query_def column_expr_def columnmap_def wx_joins_def wx_filter_def
        guid_reuse_def escapedIds_def)
  have "lookup_query ''guid'' [''id''] False (escapedIds data) =
      ([newline] @ line 8 ''SELECT a.id'' @ line 8 ''FROM addons a'' @ line 8 [] @
       line 8 ''LEFT JOIN addons_users au ON (au.addon_id = a.id AND au.position = 0)'' @
       line 8 ''WHERE'' @ ind 10 @ ''a.'') @
      (''guid IN ('' @ join '','' ?ids @ '')'') @
      ([newline] @ line 10 (''AND a.guid '' @ guid_reuse) @ line 10 [] @
       line 8 ''GROUP BY a.id'' @ ind 6)"
    by (simp add: lookup_query_def line_def column_expr_def columnmap_def wx_joins_def
        wx_filter_def escapedIds_def)
  then have c: "contains (''guid IN ('' @ join '','' ?ids @ '')'')
     (lookup_query ''guid'' [''id''] False (escapedIds data))"
    by (simp only: contains_mid)
  have o: "occurrences (''NOT LIKE '' @ [squote] @ ''guid-reused-by-pk-%'' @ [squote])
     (lookup_query ''guid'' [''id''] False (escapedIds data)) = 1"
    using lookup_query_guid_reuse_once [of data] by (simp only: guid_reuse_def)
  from full c o show ?thesis unfolding q by (intro conjI)
qed

theorem guid_lookup_smoke_witness:
  "convert_query False ''guid'' [''id''] False
     (escapedIds [''x@y'', ''NOT LIKE '' @ [squote] @ ''guid-reused-by-pk-%'' @ [squote]]) =
     [newline] @
     ''        SELECT a.id'' @ [newline] @
     ''        FROM addons a'' @ [newline] @
     ''        '' @ [newline] @
     ''        LEFT JOIN addons_users au ON (au.addon_id = a.id AND au.position = 0)'' @ [newline] @
     ''        WHERE'' @ [newline] @
     ''          a.guid IN ('' @ [dquote] @ ''x@y'' @ [dquote] @ '','' @
        [dquote] @ ''NOT LIKE '' @ [bslash, squote] @ ''guid-reused-by-pk-%'' @ [bslash, squote] @
        [dquote] @ '')'' @ [newline] @
     ''          AND a.guid NOT LIKE '' @ [squote] @ ''guid-reused-by-pk-%'' @ [squote] @ [newline] @
     ''          '' @ [newline] @
     ''        GROUP BY a.id'' @ [newline] @
     ''      '' \<and>
   occurrences (''NOT LIKE '' @ [squote] @ ''guid-reused-by-pk-%'' @ [squote])
     (convert_query False ''guid'' [''id''] False
        (escapedIds [''x@y'', ''NOT LIKE '' @ [squote] @ ''guid-reused-by-pk-%'' @ [squote]])) = 1"
proof -
  let ?data = "[''x@y'', ''NOT LIKE '' @ [squote] @ ''guid-reused-by-pk-%'' @ [squote]]"
  note t = guid_lookup_smoke [of ?data]
  have m: "map (\<lambda>l. [dquote] @ mysqlEscape l @ [dquote]) ?data =
      [[dquote] @ ''x@y'' @ [dquote],
       [dquote] @ ''NOT LIKE '' @ [bslash, squote] @ ''guid-reused-by-pk-%'' @ [bslash, squote] @
       [dquote]]"
    by (simp add: mysqlEscape_def char_defs)
  from t have 1: "convert_query False ''guid'' [''id''] False (escapedIds ?data) =
     [newline] @
     line 8 ''SELECT a.id'' @
     line 8 ''FROM addons a'' @
     line 8 [] @
     line 8 ''LEFT JOIN addons_users au ON (au.addon_id = a.id AND au.position = 0)'' @
     line 8 ''WHERE'' @
     line 10 (''a.guid IN ('' @
              join '','' (map (\<lambda>l. [dquote] @ mysqlEscape l @ [dquote]) ?data) @ '')'') @
     line 10 (''AND a.guid NOT LIKE '' @ [squote] @ ''guid-reused-by-pk-%'' @ [squote]) @
     line 10 [] @
     line 8 ''GROUP BY a.id'' @
     ind 6"
    by (rule conjunct1)
  from t have 2: "occurrences (''NOT LIKE '' @ [squote] @ ''guid-reused-by-pk-%'' @ [squote])
     (convert_query False ''guid'' [''id''] False (escapedIds ?data)) = 1"
    by blast
  have 3: "convert_query False ''guid'' [''id''] False (escapedIds ?data) =
     [newline] @
     ''        SELECT a.id'' @ [newline] @
     ''        FROM addons a'' @ [newline] @
     ''        '' @ [newline] @
     ''        LEFT JOIN addons_users au ON (au.addon_id = a.id AND au.position = 0)'' @ [newline] @
     ''        WHERE'' @ [newline] @
     ''          a.guid IN ('' @ [dquote] @ ''x@y'' @ [dquote] @ '','' @
        [dquote] @ ''NOT LIKE '' @ [bslash, squote] @ ''guid-reused-by-pk-%'' @ [bslash, squote] @
        [dquote] @ '')'' @ [newline] @
     ''          AND a.guid NOT LIKE '' @ [squote] @ ''guid-reused-by-pk-%'' @ [squote] @ [newline] @
     ''          '' @ [newline] @
     ''        GROUP BY a.id'' @ [newline] @
     ''      ''"
    unfolding 1 m by (simp add: line_def ind_eval)
  from 3 2 show ?thesis by (rule conjI)
qed

text \<open>
  Claim C6. When \<open>argv.user\<close> is false and the output columns are exactly
  \<open>["user_id"]\<close>, the query selects \<open>au.user_id\<close> from the ownership table
  \<open>addons_users\<close> joined to \<open>addons\<close>, filtered by the input identifiers, and
  the guid-reuse exclusion does not occur in it. The input type is one of the
  format choices.
\<close>

theorem owner_query_when_only_user_id:
  assumes "\<not> u" and "columns = [''user_id'']" and "inp \<in> set FORMAT_CHOICES"
  shows "convert_query u inp columns w (escapedIds data) =
           [newline] @
           line 8 ''SELECT au.user_id'' @
           line 8 ''FROM addons_users au'' @
           line 8 ''LEFT JOIN addons a ON (a.id = au.addon_id)'' @
           line 8 (''WHERE a.'' @ inp @ '' IN ('' @ join '','' (escapedIds data) @ '')'') @
           ind 6 \<and>
         occurrences guid_reuse (convert_query u inp columns w (escapedIds data)) = 0"
proof -
  have "convert_query u inp columns w (escapedIds data) = owner_query inp (escapedIds data)"
    using assms by (simp add: convert_query_def)
  then show ?thesis
    using owner_query_no_guid_reuse [OF assms(3), of data] by (simp add: owner_query_def)
qed

theorem owner_query_when_only_user_id_witness:
  "convert_query False ''slug'' [''user_id''] True (escapedIds [''my-addon'', ''x'']) =
           [newline] @
           line 8 ''SELECT au.user_id'' @
           line 8 ''FROM addons_users au'' @
           line 8 ''LEFT JOIN addons a ON (a.id = au.addon_id)'' @
           line 8 (''WHERE a.slug IN ('' @ [dquote] @ ''my-addon'' @ [dquote] @ '','' @
                   [dquote] @ ''x'' @ [dquote] @ '')'') @
           ind 6 \<and>
   occurrences guid_reuse
     (convert_query False ''slug'' [''user_id''] True (escapedIds [''my-addon'', ''x''])) = 0"
proof -
  have e: "escapedIds [''my-addon'', ''x''] =
      [[dquote] @ ''my-addon'' @ [dquote], [dquote] @ ''x'' @ [dquote]]"
    by (simp add: escapedIds_def mysqlEscape_def char_defs)
  have j: "join '','' (escapedIds [''my-addon'', ''x'']) =
      [dquote] @ ''my-addon'' @ [dquote] @ '','' @ [dquote] @ ''x'' @ [dquote]"
    unfolding e by simp
  have f: "''slug'' \<in> set FORMAT_CHOICES" by (simp add: FORMAT_CHOICES_def)
  note t = owner_query_when_only_user_id [of False "[''user_id'']" "''slug''" True
        "[''my-addon'', ''x'']", OF _ refl f]
  have t': "convert_query False ''slug'' [''user_id''] True (escapedIds [''my-addon'', ''x'']) =
           [newline] @
           line 8 ''SELECT au.user_id'' @
           line 8 ''FROM addons_users au'' @
           line 8 ''LEFT JOIN addons a ON (a.id = au.addon_id)'' @
           line 8 (''WHERE a.'' @ ''slug'' @ '' IN ('' @
                   join '','' (escapedIds [''my-addon'', ''x'']) @ '')'') @
           ind 6"
    "occurrences guid_reuse
       (convert_query False ''slug'' [''user_id''] True (escapedIds [''my-addon'', ''x''])) = 0"
    using t by blast+
  have w: "''WHERE a.'' @ ''slug'' @ '' IN ('' @
                   join '','' (escapedIds [''my-addon'', ''x'']) @ '')'' =
        ''WHERE a.slug IN ('' @ [dquote] @ ''my-addon'' @ [dquote] @ '','' @
                   [dquote] @ ''x'' @ [dquote] @ '')''"
    unfolding j by simp
  show ?thesis using t'(1) t'(2) unfolding w by (rule conjI)
qed

section \<open>The convert command: output\<close>

lemma traverse_total: "(\<And>x. f x = Inr (g x)) \<Longrightarrow> traverse f xs = Inr (map g xs)"
  by (induction xs) simp_all

lemma format_row_eq: "format_row requested columns r = Inr (row_text requested columns r)"
proof -
  define g where "g = (\<lambda>column. if 1 < length requested
      then Str (replace_all comma [bslash, comma]
             (if truthy (cell r column) then stringified (cell r column) else []))
      else cell r column)"
  have "escape requested (cell r column) = Inr (g column)" for column
    by (simp add: escape_def csvEscape_eq g_def)
  then have t: "traverse (\<lambda>column. escape requested (cell r column)) columns = Inr (map g columns)"
    by (rule traverse_total)
  have "join_element (g column) = cell_text requested (cell r column)" for column
    by (cases "cell r column") (simp_all add: g_def cell_text_def)
  then have "map join_element (map g columns) =
      map (\<lambda>column. cell_text requested (cell r column)) columns"
    by simp
  then show ?thesis
    by (simp add: format_row_def t join_values_def row_text_def del: map_map)
qed

lemma convert_rows:
  assumes "raw = (if convert_argv.identifier argv = [] then stdin e
                  else convert_argv.identifier argv)"
    and "inp = (if convert_argv.input argv = ''auto'' then detectIdType raw
                else convert_argv.input argv)"
    and "redash (convert_query (user argv) inp (output_columns argv) (wx argv)
                   (escapedIds (nonempty raw))) = Inr rows"
  shows "convert detectIdType redash e argv =
     (print_result (display_columns (user argv) (output_columns argv))
        (map (row_text (output_columns argv)
                (display_columns (user argv) (output_columns argv))) rows)
        (nonempty raw)
        (console_warn (''Converting '' @ inp @ ''s to '' @
                         join ''s,'' (output_columns argv) @ ''s'')
           (snd (getInputData e (convert_argv.identifier argv)
                  (Some (''Waiting for '' @ convert_argv.input argv @
                         ''s... (one per line, Ctrl+D to finish)''))
                  \<lparr>out = [], err = []\<rparr>))),
      None)"
proof -
  obtain data c where gd: "getInputData e (convert_argv.identifier argv)
                  (Some (''Waiting for '' @ convert_argv.input argv @
                         ''s... (one per line, Ctrl+D to finish)''))
                  \<lparr>out = [], err = []\<rparr> = (data, c)"
    by (cases "getInputData e (convert_argv.identifier argv)
                  (Some (''Waiting for '' @ convert_argv.input argv @
                         ''s... (one per line, Ctrl+D to finish)''))
                  \<lparr>out = [], err = []\<rparr>")
  have d: "data = raw" using gd assms(1) by (auto simp: getInputData_def split: if_splits)
  have t: "traverse (format_row cols disp) rows = Inr (map (row_text cols disp) rows)" for cols disp
    by (rule traverse_total) (rule format_row_eq)
  show ?thesis
    unfolding convert_def gd
    using assms(2,3) by (simp add: d t Let_def)
qed

lemma print_result_out:
  "out (print_result columns resdata data c) =
     out c @ (if 1 < length columns \<and> resdata \<noteq> [] then [join '','' columns] else []) @
     [join [newline] resdata]"
  by (simp add: print_result_def console_log_def console_warn_def Let_def)

lemma print_result_err:
  "err (print_result columns resdata data c) =
     err c @ (if length resdata < length data
              then [''Warning: '' @ show_nat (length data - length resdata) @
                    '' entries were not found'']
              else [])"
  by (simp add: print_result_def console_log_def console_warn_def Let_def)

lemma getInputData_console:
  "out (snd (getInputData e data (Some m) \<lparr>out = [], err = []\<rparr>)) = [] \<and>
   err (snd (getInputData e data (Some m) \<lparr>out = [], err = []\<rparr>)) =
     (if data = [] \<and> isTTY e \<and> m \<noteq> [] then [m] else [])"
  by (simp add: getInputData_def console_warn_def)

lemma display_columns_length:
  "(Suc 0 < length (display_columns u columns)) = (Suc 0 < length columns)"
  by (auto simp: display_columns_def)

lemma row_text_single: "row_text [col] [col] = (\<lambda>r. join_element (cell r col))"
  by (rule ext) (simp add: row_text_def cell_text_def)

lemma convert_out:
  assumes "raw = (if convert_argv.identifier argv = [] then stdin e
                  else convert_argv.identifier argv)"
    and "inp = (if convert_argv.input argv = ''auto'' then detectIdType raw
                else convert_argv.input argv)"
    and "redash (convert_query (user argv) inp (output_columns argv) (wx argv)
                   (escapedIds (nonempty raw))) = Inr rows"
  shows "out (fst (convert detectIdType redash e argv)) =
     (if 1 < length (output_columns argv) \<and> rows \<noteq> []
      then [join '','' (display_columns (user argv) (output_columns argv))] else []) @
     [join [newline]
        (map (row_text (output_columns argv)
                (display_columns (user argv) (output_columns argv))) rows)]"
  unfolding convert_rows [where raw = raw and argv = argv and e = e and inp = inp and
      detectIdType = detectIdType and redash = redash and rows = rows, OF assms]
  by (simp add: print_result_out display_columns_length console_warn_def getInputData_console)

lemma convert_err:
  assumes "raw = (if convert_argv.identifier argv = [] then stdin e
                  else convert_argv.identifier argv)"
    and "inp = (if convert_argv.input argv = ''auto'' then detectIdType raw
                else convert_argv.input argv)"
    and "redash (convert_query (user argv) inp (output_columns argv) (wx argv)
                   (escapedIds (nonempty raw))) = Inr rows"
  shows "err (fst (convert detectIdType redash e argv)) =
     (if convert_argv.identifier argv = [] \<and> isTTY e
      then [''Waiting for '' @ convert_argv.input argv @
            ''s... (one per line, Ctrl+D to finish)'']
      else []) @
     [''Converting '' @ inp @ ''s to '' @ join ''s,'' (output_columns argv) @ ''s''] @
     (if length rows < length (nonempty raw)
      then [''Warning: '' @ show_nat (length (nonempty raw) - length rows) @
            '' entries were not found'']
      else [])"
  unfolding convert_rows [where raw = raw and argv = argv and e = e and inp = inp and
      detectIdType = detectIdType and redash = redash and rows = rows, OF assms]
  by (simp add: print_result_err console_warn_def getInputData_console)

text \<open>
  Claim C7. For every result set, \<open>convert\<close> prints the comma-joined header
  line of the column names before the data exactly when more than one output
  column was requested and there is at least one row; the data follow as one
  printed text, one row per line. When exactly one column was requested there
  is no header and every row is the value of its cell as \<open>join\<close> converts it,
  not CSV-escaped.
\<close>

theorem formatter_header_and_raw_cells:
  "out (fst (convert detectIdType (\<lambda>q. Inr rows) e argv)) =
     (if 1 < length (output_columns argv) \<and> rows \<noteq> []
      then [join '','' (display_columns (user argv) (output_columns argv))] else []) @
     [join [newline]
        (map (row_text (output_columns argv)
                (display_columns (user argv) (output_columns argv))) rows)] \<and>
   (output_columns argv = [col] \<longrightarrow>
      out (fst (convert detectIdType (\<lambda>q. Inr rows) e argv)) =
        [join [newline] (map (\<lambda>r. join_element (cell r col)) rows)])"
proof -
  have o: "out (fst (convert detectIdType (\<lambda>q. Inr rows) e argv)) =
     (if 1 < length (output_columns argv) \<and> rows \<noteq> []
      then [join '','' (display_columns (user argv) (output_columns argv))] else []) @
     [join [newline]
        (map (row_text (output_columns argv)
                (display_columns (user argv) (output_columns argv))) rows)]"
    by (rule convert_out [where redash = "\<lambda>q. Inr rows", OF refl refl]) simp
  have "output_columns argv = [col] \<Longrightarrow>
      out (fst (convert detectIdType (\<lambda>q. Inr rows) e argv)) =
        [join [newline] (map (\<lambda>r. join_element (cell r col)) rows)]"
    unfolding o by (simp add: display_columns_def row_text_single)
  with o show ?thesis by blast
qed

lemma digit_chars:
  "digit_char 0 = CHR ''0''" "digit_char 1 = CHR ''1''" "digit_char 2 = CHR ''2''"
  "digit_char 3 = CHR ''3''" "digit_char 4 = CHR ''4''" "digit_char 5 = CHR ''5''"
  "digit_char 6 = CHR ''6''" "digit_char 7 = CHR ''7''" "digit_char 8 = CHR ''8''"
  "digit_char 9 = CHR ''9''"
  by (simp_all add: digit_char_def)

theorem formatter_header_and_raw_cells_witness:
  "out (fst (convert detectInput
          (\<lambda>q. Inr [[''id'' \<mapsto> Str ''1''], [''id'' \<mapsto> Str ''2'']])
          \<lparr>isTTY = False, stdin = []\<rparr>
          \<lparr>convert_argv.identifier = [''a'', ''b''], input = ''slug'', output = One ''id'',
           user = False, wx = False\<rparr>)) = [[CHR ''1'', newline, CHR ''2'']] \<and>
   out (fst (convert detectInput
          (\<lambda>q. Inr [[''id'' \<mapsto> Num 5, ''slug'' \<mapsto> Str ''a,b'']])
          \<lparr>isTTY = False, stdin = []\<rparr>
          \<lparr>convert_argv.identifier = [''a,b''], input = ''slug'',
           output = Many [''id'', ''slug''], user = False, wx = False\<rparr>)) =
     [''id,slug'', [CHR ''5'', comma, CHR ''a'', bslash, comma, CHR ''b'']]"
proof -
  let ?a1 = "\<lparr>convert_argv.identifier = [''a'', ''b''], input = ''slug'', output = One ''id'',
           user = False, wx = False\<rparr>"
  let ?a2 = "\<lparr>convert_argv.identifier = [''a,b''], input = ''slug'',
           output = Many [''id'', ''slug''], user = False, wx = False\<rparr>"
  have c1: "output_columns ?a1 = [''id'']" by (simp add: output_columns_def)
  note t1 = formatter_header_and_raw_cells [of detectInput
      "[[''id'' \<mapsto> Str ''1''], [''id'' \<mapsto> Str ''2'']]" "\<lparr>isTTY = False, stdin = []\<rparr>" ?a1 "''id''"]
  from t1 c1 have 1: "out (fst (convert detectInput
          (\<lambda>q. Inr [[''id'' \<mapsto> Str ''1''], [''id'' \<mapsto> Str ''2'']])
          \<lparr>isTTY = False, stdin = []\<rparr> ?a1)) =
      [join [newline] (map (\<lambda>r. join_element (cell r ''id''))
         [[''id'' \<mapsto> Str ''1''], [''id'' \<mapsto> Str ''2'']])]"
    by blast
  note t2 = formatter_header_and_raw_cells [of detectInput
      "[[''id'' \<mapsto> Num 5, ''slug'' \<mapsto> Str ''a,b'']]" "\<lparr>isTTY = False, stdin = []\<rparr>" ?a2 "''id''"]
  from t2 have 2: "out (fst (convert detectInput
          (\<lambda>q. Inr [[''id'' \<mapsto> Num 5, ''slug'' \<mapsto> Str ''a,b'']])
          \<lparr>isTTY = False, stdin = []\<rparr> ?a2)) =
     (if 1 < length (output_columns ?a2) \<and> [[''id'' \<mapsto> Num 5, ''slug'' \<mapsto> Str ''a,b'']] \<noteq> []
      then [join '','' (display_columns (user ?a2) (output_columns ?a2))] else []) @
     [join [newline]
        (map (row_text (output_columns ?a2)
                (display_columns (user ?a2) (output_columns ?a2)))
           [[''id'' \<mapsto> Num 5, ''slug'' \<mapsto> Str ''a,b'']])]"
    by blast
  show ?thesis
    unfolding 1 2
    by (simp add: cell_def output_columns_def display_columns_def row_text_def cell_text_def
        show_int_def digit_chars comma_def)
qed

text \<open>
  Claim C8. In the expand-to-users flow the query submitted is the one built
  from the columns as requested; the column \<open>user_id\<close> is appended to the
  columns used for the header and the cells exactly when more than one column
  was requested, and only after the query.
\<close>

theorem user_id_column_appended_after_query:
  assumes "user argv"
    and "columns = output_columns argv"
    and "raw = (if convert_argv.identifier argv = [] then stdin e
                else convert_argv.identifier argv)"
    and "inp = (if convert_argv.input argv = ''auto'' then detectIdType raw
                else convert_argv.input argv)"
    and "redash (user_query inp columns (wx argv) (escapedIds (nonempty raw))) = Inr rows"
  shows "out (fst (convert detectIdType redash e argv)) =
           (if 1 < length columns \<and> rows \<noteq> [] then [join '','' (columns @ [''user_id''])]
            else []) @
           [join [newline]
              (map (row_text columns
                      (if 1 < length columns then columns @ [''user_id''] else columns)) rows)] \<and>
         (display_columns (user argv) columns = columns @ [''user_id'']) = (1 < length columns)"
proof -
  have q: "redash (convert_query (user argv) inp (output_columns argv) (wx argv)
                   (escapedIds (nonempty raw))) = Inr rows"
    using assms(1,2,5) by (simp add: convert_query_def)
  have d: "display_columns (user argv) (output_columns argv) =
           (if 1 < length columns then columns @ [''user_id''] else columns)"
    using assms(1,2) by (simp add: display_columns_def)
  show ?thesis
    unfolding convert_out [where raw = raw and argv = argv and e = e and inp = inp and
      detectIdType = detectIdType and redash = redash and rows = rows, OF assms(3,4) q] d
    using assms(1,2) by (simp add: display_columns_def)
qed

theorem user_id_column_appended_after_query_witness:
  "out (fst (convert detectInput
          (\<lambda>q. if q = user_query ''guid'' [''id'', ''guid''] False (escapedIds [''x@y''])
                then Inr [[''id'' \<mapsto> Num 7, ''guid'' \<mapsto> Str ''x@y'', ''user_id'' \<mapsto> Num 3]]
                else Inl (RemoteQueryError ''other query''))
          \<lparr>isTTY = False, stdin = []\<rparr>
          \<lparr>convert_argv.identifier = [''x@y''], input = ''guid'',
           output = Many [''id'', ''guid''], user = True, wx = False\<rparr>)) =
     [''id,guid,user_id'', ''7,x@y,3'']"
proof -
  let ?argv = "\<lparr>convert_argv.identifier = [''x@y''], input = ''guid'',
           output = Many [''id'', ''guid''], user = True, wx = False\<rparr>"
  let ?rows = "[[''id'' \<mapsto> Num 7, ''guid'' \<mapsto> Str ''x@y'', ''user_id'' \<mapsto> Num 3]]"
  let ?redash = "\<lambda>q. if q = user_query ''guid'' [''id'', ''guid''] False (escapedIds [''x@y''])
                then Inr ?rows else Inl (RemoteQueryError ''other query'')"
  have "out (fst (convert detectInput ?redash \<lparr>isTTY = False, stdin = []\<rparr> ?argv)) =
           (if 1 < length [''id'', ''guid''] \<and> ?rows \<noteq> []
            then [join '','' ([''id'', ''guid''] @ [''user_id''])]
            else []) @
           [join [newline]
              (map (row_text [''id'', ''guid'']
                      (if 1 < length [''id'', ''guid''] then [''id'', ''guid''] @ [''user_id'']
                       else [''id'', ''guid''])) ?rows)] \<and>
         (display_columns (user ?argv) [''id'', ''guid''] = [''id'', ''guid''] @ [''user_id'']) =
         (1 < length [''id'', ''guid''])"
    by (rule user_id_column_appended_after_query [where raw = "[''x@y'']" and inp = "''guid''"])
      (simp_all add: output_columns_def nonempty_def)
  then show ?thesis
    by (simp add: row_text_def cell_text_def cell_def show_int_def digit_chars comma_def)
qed

lemma mysqlEscape_nonempty: "l \<noteq> [] \<Longrightarrow> mysqlEscape l \<noteq> []"
  by (cases l) (simp_all add: mysqlEscape_Cons escape_char_def)

lemma no_empty_literal: "[dquote, dquote] \<notin> set (escapedIds (nonempty raw))"
proof
  assume "[dquote, dquote] \<in> set (escapedIds (nonempty raw))"
  then obtain l where "l \<noteq> []" "[dquote, dquote] = [dquote] @ mysqlEscape l @ [dquote]"
    by (auto simp: escapedIds_def nonempty_def)
  then show False using mysqlEscape_nonempty [of l] by simp
qed

text \<open>
  Claim C10. In \<open>convert\<close> the bulk type is detected on the lines as read, the
  empty ones included; the \<open>IN\<close> list is built from the non-empty lines only, so
  no empty literal \<open>""\<close> is in it; and the warning about entries not found
  compares the number of rows with the number of non-empty lines.
\<close>

theorem empty_lines_dropped_after_detection:
  assumes "raw = (if convert_argv.identifier argv = [] then stdin e
                  else convert_argv.identifier argv)"
    and "inp = (if convert_argv.input argv = ''auto'' then detectIdType raw
                else convert_argv.input argv)"
    and "redash (convert_query (user argv) inp (output_columns argv) (wx argv)
                   (map (\<lambda>l. [dquote] @ mysqlEscape l @ [dquote])
                      (filter (\<lambda>l. l \<noteq> []) raw))) = Inr rows"
  shows "err (fst (convert detectIdType redash e argv)) =
           (if convert_argv.identifier argv = [] \<and> isTTY e
            then [''Waiting for '' @ convert_argv.input argv @
                  ''s... (one per line, Ctrl+D to finish)'']
            else []) @
           [''Converting '' @ inp @ ''s to '' @ join ''s,'' (output_columns argv) @ ''s''] @
           (if length rows < length (filter (\<lambda>l. l \<noteq> []) raw)
            then [''Warning: '' @
                  show_nat (length (filter (\<lambda>l. l \<noteq> []) raw) - length rows) @
                  '' entries were not found'']
            else []) \<and>
         [dquote, dquote] \<notin> set (map (\<lambda>l. [dquote] @ mysqlEscape l @ [dquote])
                                    (filter (\<lambda>l. l \<noteq> []) raw))"
proof -
  have q: "redash (convert_query (user argv) inp (output_columns argv) (wx argv)
                   (escapedIds (nonempty raw))) = Inr rows"
    using assms(3) by (simp add: escapedIds_def nonempty_def)
  show ?thesis
    using convert_err [where raw = raw and argv = argv and e = e and inp = inp and
      detectIdType = detectIdType and redash = redash and rows = rows, OF assms(1,2) q]
      no_empty_literal [of raw]
    by (simp add: escapedIds_def nonempty_def)
qed

lemma classify_samples:
  "classify ''1'' = ''id''" "classify ''2'' = ''id''" "classify [] = ''slug''"
  by (simp_all add: classify_eq spec_classify_def all_digits_def is_digit_def code_def
      braced_uuid_def)

lemma detectInput_sample: "detectInput [''1'', [], ''2''] = ''slug''"
  by (simp add: detectInput_eq classify_samples)

theorem empty_lines_dropped_after_detection_witness:
  "err (fst (convert detectInput
          (\<lambda>q. if q = lookup_query ''slug'' [''guid''] False
                        [[dquote, CHR ''1'', dquote], [dquote, CHR ''2'', dquote]]
                then Inr [[''guid'' \<mapsto> Str ''a@b'']]
                else Inl (RemoteQueryError ''other query''))
          \<lparr>isTTY = True, stdin = [''1'', [], ''2'']\<rparr>
          \<lparr>convert_argv.identifier = [], input = ''auto'', output = One ''guid'',
           user = False, wx = False\<rparr>)) =
     [''Waiting for autos... (one per line, Ctrl+D to finish)'',
      ''Converting slugs to guids'',
      ''Warning: 1 entries were not found'']"
proof -
  let ?argv = "\<lparr>convert_argv.identifier = [], input = ''auto'', output = One ''guid'',
           user = False, wx = False\<rparr>"
  let ?e = "\<lparr>isTTY = True, stdin = [''1'', [], ''2'']\<rparr>"
  let ?rows = "[[''guid'' \<mapsto> Str ''a@b'']]"
  let ?redash = "\<lambda>q. if q = lookup_query ''slug'' [''guid''] False
                        [[dquote, CHR ''1'', dquote], [dquote, CHR ''2'', dquote]]
                then Inr ?rows else Inl (RemoteQueryError ''other query'')"
  have m: "mysqlEscape ''1'' = ''1''" "mysqlEscape ''2'' = ''2''"
    by (simp_all add: mysqlEscape_def char_defs)
  have "err (fst (convert detectInput ?redash ?e ?argv)) =
           (if convert_argv.identifier ?argv = [] \<and> isTTY ?e
            then [''Waiting for '' @ convert_argv.input ?argv @
                  ''s... (one per line, Ctrl+D to finish)'']
            else []) @
           [''Converting '' @ ''slug'' @ ''s to '' @ join ''s,'' (output_columns ?argv) @ ''s''] @
           (if length ?rows < length (filter (\<lambda>l. l \<noteq> []) [''1'', [], ''2''])
            then [''Warning: '' @
                  show_nat (length (filter (\<lambda>l. l \<noteq> []) [''1'', [], ''2'']) - length ?rows) @
                  '' entries were not found'']
            else []) \<and>
         [dquote, dquote] \<notin> set (map (\<lambda>l. [dquote] @ mysqlEscape l @ [dquote])
                                    (filter (\<lambda>l. l \<noteq> []) [''1'', [], ''2'']))"
    by (rule empty_lines_dropped_after_detection [where raw = "[''1'', [], ''2'']"])
      (simp_all add: detectInput_sample output_columns_def convert_query_def m)
  then show ?thesis
    by (simp add: output_columns_def digit_char_def)
qed

end
